theory Spec2Isabelle
  imports Main "HOL-Library.Word" "HOL-Library.Multiset"
begin

unbundle bit_operations_syntax

section \<open>Data model of the decoding core (disasm.c)\<close>

text \<open>
  The byte stream is a \<open>char\<close> array in C; a stream byte is an 8-bit word here. The
  matcher only ever looks at one bit of a byte, \<open>(b >> k) & 1\<close> with \<open>k \<le> 7\<close>, which is
  the same bit whether \<open>char\<close> is signed or not.

  A read at an index outside the list is a read outside the supplied buffer; C leaves it
  undefined, the model returns \<open>Out_Of_Bounds\<close> for the whole call.
\<close>

type_synonym byte = "8 word"

datatype 'a outcome = Out_Of_Bounds | Result 'a

text \<open>
  \<open>cx->dis_regs\<close> is an array of 256 \<open>int\<close>: one 32-bit accumulator for each
  character code from 0 to 255. A left shift that runs out of the 32 bits drops the bits
  at the top.
\<close>

type_synonym registers = "char \<Rightarrow> 32 word"

text \<open>
  The matcher indexes the array with \<open>(int) Mask_Val\<close>, and \<open>Mask_Val\<close> is a plain
  \<open>char\<close>. Plain \<open>char\<close> is taken as signed, as it is where the program is commonly
  built: a character up to 127 indexes its own code, a character above 127 its code less
  256, a negative number. (Where \<open>char\<close> is unsigned the index is the code throughout;
  the two readings agree on every character up to 127, and no registered pattern holds
  another.)
\<close>

definition dis_regs_index :: "char \<Rightarrow> int" where
  "dis_regs_index Mask_Val =
     (if (of_char Mask_Val :: nat) < 128 then int (of_char Mask_Val)
      else int (of_char Mask_Val) - 256)"

section \<open>Pattern helpers\<close>

text \<open>\<open>Get_Bitmask_Length\<close>: the number of characters of the pattern that are not a blank.\<close>

definition Get_Bitmask_Length :: "string \<Rightarrow> nat" where
  "Get_Bitmask_Length Bitmask =
     fold (\<lambda>c Length. if c \<noteq> CHR '' '' then Length + 1 else Length) Bitmask 0"

text \<open>\<open>Clear_Registers\<close>: every one of the 256 accumulators is set to 0.\<close>

definition Clear_Registers :: "registers \<Rightarrow> registers" where
  "Clear_Registers regs = (\<lambda>i. 0)"

text \<open>
  \<open>Get_From_Bitmask\<close>: the character number \<open>Byte * 8 + Bit\<close> among the non-blank
  characters, \<open>?\<close> when the pattern has fewer.
\<close>

fun Get_From_Bitmask_loop :: "string \<Rightarrow> nat \<Rightarrow> nat \<Rightarrow> char" where
  "Get_From_Bitmask_loop [] Cnt GetBit = CHR ''?''"
| "Get_From_Bitmask_loop (c # cs) Cnt GetBit =
     (if c \<noteq> CHR '' '' then
        (if Cnt = GetBit then c else Get_From_Bitmask_loop cs (Cnt + 1) GetBit)
      else Get_From_Bitmask_loop cs Cnt GetBit)"

definition Get_From_Bitmask :: "string \<Rightarrow> nat \<Rightarrow> nat \<Rightarrow> char" where
  "Get_From_Bitmask Bitmask Byte Bit = Get_From_Bitmask_loop Bitmask 0 (Byte * 8 + Bit)"

section \<open>The pattern matcher\<close>

text \<open>
  \<open>Match_Opcode\<close> clears the accumulators and walks the significant positions
  \<open>i = 0 .. Length - 1\<close>. The stream bit for position \<open>i\<close> is bit \<open>7 - i % 8\<close> of byte
  \<open>(i / 8) ^ 1\<close>. A \<open>0\<close> or \<open>1\<close> in the pattern must agree with the stream bit, else the
  function returns 0 at once; any other character shifts the stream bit into the
  accumulator at the index of that character. With a negative index the two statements
  work on the \<open>int\<close> that lies that far in front of the array: none of the 256
  accumulators changes, and what lies in front of the array is not part of the model. The
  result is the C return value together with the accumulators as the call leaves them.
\<close>

function Match_Opcode_loop ::
  "string \<Rightarrow> byte list \<Rightarrow> nat \<Rightarrow> nat \<Rightarrow> registers \<Rightarrow> (int \<times> registers) outcome" where
  "Match_Opcode_loop Bitmask Bitstream Length i regs =
     (if i < Length then
        (let Byte_Mask = i div 8;
             Bit_Mask = i mod 8;
             Byte_Stream = (i div 8) XOR 1;
             Bit_Stream = 7 - (i mod 8);
             Mask_Val = Get_From_Bitmask Bitmask Byte_Mask Bit_Mask
         in if Byte_Stream < length Bitstream then
              (let Stream_Val = (drop_bit Bit_Stream (Bitstream ! Byte_Stream)) AND (1 :: byte)
               in if Mask_Val = CHR ''0'' \<or> Mask_Val = CHR ''1'' then
                    (if Mask_Val = CHR ''0'' then
                       (if Stream_Val = 1 then Result (0, regs)
                        else Match_Opcode_loop Bitmask Bitstream Length (i + 1) regs)
                     else
                       (if Stream_Val = 0 then Result (0, regs)
                        else Match_Opcode_loop Bitmask Bitstream Length (i + 1) regs))
                  else
                    Match_Opcode_loop Bitmask Bitstream Length (i + 1)
                      (if 0 \<le> dis_regs_index Mask_Val
                       then regs(Mask_Val := push_bit 1 (regs Mask_Val) OR ucast Stream_Val)
                       else regs))
            else Out_Of_Bounds)
      else Result (1, regs))"
  by pat_completeness auto
termination
  by (relation "measure (\<lambda>(Bitmask, Bitstream, Length, i, regs). Length - i)") auto

declare Match_Opcode_loop.simps [simp del]

definition Match_Opcode :: "string \<Rightarrow> byte list \<Rightarrow> registers \<Rightarrow> (int \<times> registers) outcome" where
  "Match_Opcode Bitmask Bitstream regs =
     Match_Opcode_loop Bitmask Bitstream (Get_Bitmask_Length Bitmask) 0 (Clear_Registers regs)"

text \<open>
  \<open>Compare_Opcode\<close> is the plain comparator of the file: it indexes the pattern by raw
  character (blanks included), accepts only \<open>x\<close>, \<open>1\<close> and \<open>0\<close>, writes
  \<open>Invalid Bitmask!\<close> to the error stream on any other character and returns 0. The
  result carries the lines written to the error stream.
\<close>

function Compare_Opcode_loop ::
  "byte list \<Rightarrow> string \<Rightarrow> nat \<Rightarrow> (int \<times> string list) outcome" where
  "Compare_Opcode_loop Bitstream Bitmask i =
     (if i < length Bitmask then
        (if Bitmask ! i \<noteq> CHR ''x'' \<and> Bitmask ! i \<noteq> CHR ''1'' \<and> Bitmask ! i \<noteq> CHR ''0'' then
           Result (0, [''Invalid Bitmask!''])
         else if Bitmask ! i = CHR ''x'' then
           Compare_Opcode_loop Bitstream Bitmask (i + 1)
         else if i div 8 < length Bitstream then
           (let Bit = (drop_bit (7 - (i mod 8)) (Bitstream ! (i div 8))) AND (1 :: byte)
            in if Bitmask ! i = CHR ''1'' \<and> Bit = 1 then
                 Compare_Opcode_loop Bitstream Bitmask (i + 1)
               else if Bitmask ! i = CHR ''0'' \<and> Bit = 0 then
                 Compare_Opcode_loop Bitstream Bitmask (i + 1)
               else Result (0, []))
         else Out_Of_Bounds)
      else Result (1, []))"
  by pat_completeness auto
termination
  by (relation "measure (\<lambda>(Bitstream, Bitmask, i). length Bitmask - i)") auto

declare Compare_Opcode_loop.simps [simp del]

definition Compare_Opcode :: "byte list \<Rightarrow> string \<Rightarrow> (int \<times> string list) outcome" where
  "Compare_Opcode Bitstream Bitmask = Compare_Opcode_loop Bitstream Bitmask 0"

section \<open>The opcode registry\<close>

text \<open>
  An entry of \<open>cx->dis_op\<close>: the pattern, the mnemonic and the render callback. The
  mnemonic is a value of the enumeration \<open>AVR_opcode\<close> and the callback a function
  pointer; both are kept by the identifier the source writes. The registry is the list of
  the first \<open>cx->dis_n_ops\<close> entries of the array, so \<open>dis_n_ops\<close> is its length.
\<close>

type_synonym AVR_opcode = string
type_synonym callback = string

record Disasm_opcode =
  Opcode_String :: string
  mnemo :: AVR_opcode
  Callback :: callback

text \<open>\<open>Get_Specifity\<close>: the number of \<open>0\<close> and \<open>1\<close> characters of a pattern.\<close>

definition Get_Specifity :: "string \<Rightarrow> nat" where
  "Get_Specifity Opcode =
     fold (\<lambda>c Specifity. if c = CHR ''0'' \<or> c = CHR ''1'' then Specifity + 1 else Specifity)
       Opcode 0"

text \<open>
  \<open>Comparison\<close>, the order handed to \<open>qsort\<close>: positive when the first entry is the less
  specific one, 0 on equal specificity, negative otherwise.
\<close>

definition Comparison :: "Disasm_opcode \<Rightarrow> Disasm_opcode \<Rightarrow> int" where
  "Comparison OC1 OC2 =
     (let SP1 = Get_Specifity (Opcode_String OC1);
          SP2 = Get_Specifity (Opcode_String OC2)
      in if SP1 < SP2 then 1 else if SP2 = SP1 then 0 else - 1)"

text \<open>
  \<open>Get_Next_Opcode\<close>: the index of the first entry, in registry order, that
  \<open>Match_Opcode\<close> accepts for the bytes at hand, or \<open>-1\<close>. Every attempt clears and
  refills the accumulators, so the call leaves those of its last attempt.
\<close>

fun Get_Next_Opcode_loop ::
  "Disasm_opcode list \<Rightarrow> nat \<Rightarrow> byte list \<Rightarrow> registers \<Rightarrow> (int \<times> registers) outcome" where
  "Get_Next_Opcode_loop [] i Bitstream regs = Result (- 1, regs)"
| "Get_Next_Opcode_loop (entry # rest) i Bitstream regs =
     (case Match_Opcode (Opcode_String entry) Bitstream regs of
        Out_Of_Bounds \<Rightarrow> Out_Of_Bounds
      | Result (r, regs') \<Rightarrow>
          if r = 1 then Result (int i, regs')
          else Get_Next_Opcode_loop rest (i + 1) Bitstream regs')"

definition Get_Next_Opcode ::
  "Disasm_opcode list \<Rightarrow> byte list \<Rightarrow> registers \<Rightarrow> (int \<times> registers) outcome" where
  "Get_Next_Opcode ops Bitstream regs = Get_Next_Opcode_loop ops 0 Bitstream regs"

section \<open>The state of a run\<close>

text \<open>
  \<open>cx->dis_opts\<close>. Only \<open>CODESTYLE_AVRGCC\<close> is named in the file; every other value of
  the style is \<open>CODESTYLE_other\<close>.
\<close>

datatype code_style = CODESTYLE_AVRGCC | CODESTYLE_other

record Disasm_options =
  Show_Addresses :: bool
  Show_Opcodes :: bool
  Show_Comments :: bool
  Show_Cycles :: bool
  Show_PseudoCode :: bool
  Process_Labels :: bool
  CodeStyle :: code_style
  Tagfile :: "string option"
  Pass :: nat

text \<open>
  What the driver writes to the standard output, one item per \<open>printf\<close> call, carrying
  the arguments of its format: the address column, the cycle column (of the mnemonic
  whose \<open>clocks_e\<close> is printed), the raw bytes with the number of padding columns, the
  code lines, and the placeholder
  \<open>.word 0x%02x%02x    ; Invalid opcode at 0x%04x (%d). Disassembler skipped two bytes.\<close>
  with the two bytes \<open>Bitstream[Pos + 1]\<close>, \<open>Bitstream[Pos]\<close> and the position. \<open>Text\<close>
  is what a collaborator printed; \<open>Closing_Brace\<close> stands for the two calls that close a
  pseudocode listing.
\<close>

datatype out_item =
    Text string
  | Address nat
  | Cycles AVR_opcode
  | Opcode_Bytes "byte list" nat
  | Not_Implemented AVR_opcode
  | Code string
  | Code_Comment nat string string
  | After_Code string
  | Invalid_Opcode byte byte nat
  | Closing_Brace

text \<open>
  The part of the global context \<open>cx\<close> the file works on, the two output streams, and
  \<open>collab\<close>: whatever the collaborators (tag file, label table, register usage) keep.
\<close>

record 'x libavrdude_context =
  dis_opts :: Disasm_options
  dis_op :: "Disasm_opcode list"
  dis_regs :: registers
  dis_code :: string
  dis_comment :: string
  dis_after_code :: string
  stdout :: "out_item list"
  stderr :: "string list"
  collab :: 'x

text \<open>
  What the file calls and does not define: the tag file reader and data printer, the label
  and register-usage collaborators, the render callbacks (\<open>invoke\<close> runs the callback of
  that name on \<open>Bitstream + Pos\<close>, \<open>Pos\<close> and the mnemonic; it sees the context and
  returns the three text buffers and the collaborators' state), the table \<open>avr_opcodes\<close>
  (its \<open>mnemo\<close> column, each enumerator as the number it stands for), and the C
  library's \<open>qsort\<close>. \<open>Tagfile_Process_Data\<close> returns the number of bytes it consumed,
  what it printed and its new state. What a collaborator or a callback reads from the
  stream is not followed; the reads of the matcher and of the driver are.
\<close>

record 'x externals =
  Read_Tagfile :: "string \<Rightarrow> 'x \<Rightarrow> bool \<times> 'x"
  Tagfile_Process_Data :: "byte list \<Rightarrow> nat \<Rightarrow> 'x \<Rightarrow> nat \<times> string list \<times> 'x"
  Enumerate_Labels :: "'x \<Rightarrow> 'x"
  Emit_Used_IO_Registers :: "'x \<Rightarrow> string list \<times> 'x"
  Print_JumpCalls :: "nat \<Rightarrow> 'x \<Rightarrow> string list \<times> 'x"
  invoke :: "callback \<Rightarrow> byte list \<Rightarrow> nat \<Rightarrow> AVR_opcode \<Rightarrow> 'x libavrdude_context
               \<Rightarrow> (string \<times> string \<times> string) \<times> 'x"
  avr_opcodes :: "nat list"
  qsort :: "(Disasm_opcode \<Rightarrow> Disasm_opcode \<Rightarrow> int) \<Rightarrow> Disasm_opcode list \<Rightarrow> Disasm_opcode list"

text \<open>\<open>emit\<close> is \<open>printf\<close>: it appends to the standard output.\<close>

definition emit :: "out_item list \<Rightarrow> 'x libavrdude_context \<Rightarrow> 'x libavrdude_context" where
  "emit items cx = cx\<lparr>stdout := stdout cx @ items\<rparr>"

text \<open>
  \<open>Register_Opcode\<close> appends an entry (the capacity of the array is not modelled);
  \<open>Supersede_Opcode\<close> replaces the callback of the first entry that carries the
  mnemonic and complains on the error stream when there is none.
\<close>

definition Register_Opcode :: "callback \<Rightarrow> string \<Rightarrow> AVR_opcode \<Rightarrow> 'x libavrdude_context \<Rightarrow> 'x libavrdude_context" where
  "Register_Opcode cb New_Opcode_String m cx =
     cx\<lparr>dis_op := dis_op cx @ [\<lparr>Opcode_String = New_Opcode_String, mnemo = m, Callback = cb\<rparr>]\<rparr>"

fun Supersede_Opcode_loop ::
  "callback \<Rightarrow> AVR_opcode \<Rightarrow> Disasm_opcode list \<Rightarrow> Disasm_opcode list option" where
  "Supersede_Opcode_loop cb m [] = None"
| "Supersede_Opcode_loop cb m (entry # rest) =
     (if mnemo entry = m then Some (entry\<lparr>Callback := cb\<rparr> # rest)
      else map_option (\<lambda>rest'. entry # rest') (Supersede_Opcode_loop cb m rest))"

definition Supersede_Opcode :: "callback \<Rightarrow> AVR_opcode \<Rightarrow> 'x libavrdude_context \<Rightarrow> 'x libavrdude_context" where
  "Supersede_Opcode cb m cx =
     (case Supersede_Opcode_loop cb m (dis_op cx) of
        Some ops \<Rightarrow> cx\<lparr>dis_op := ops\<rparr>
      | None \<Rightarrow> cx\<lparr>stderr := stderr cx @ [''Error: No callback fund to supersede opcode '' @ m]\<rparr>)"

section \<open>The two passes\<close>

text \<open>
  The cursor \<open>Pos\<close> starts at 0 and only grows, so it is a natural number; \<open>Read\<close> is
  the \<open>int\<close> the caller passes. \<open>Bitstream + Pos\<close> is the stream without its first
  \<open>Pos\<close> bytes.

  A loop of the driver may not end (a collaborator or a pattern shorter than a byte can
  leave the cursor where it is), so the loops return an option: \<open>None\<close> is a run that
  never returns. \<open>and_then\<close> chains such runs.
\<close>

definition and_then ::
  "'a outcome option \<Rightarrow> ('a \<Rightarrow> 'b outcome option) \<Rightarrow> 'b outcome option" where
  "and_then r f =
     (case r of None \<Rightarrow> None | Some Out_Of_Bounds \<Rightarrow> Some Out_Of_Bounds | Some (Result v) \<Rightarrow> f v)"

definition run_callback ::
  "'x externals \<Rightarrow> Disasm_opcode \<Rightarrow> byte list \<Rightarrow> nat \<Rightarrow> 'x libavrdude_context \<Rightarrow> 'x libavrdude_context" where
  "run_callback ext entry Bitstream Pos cx =
     (case invoke ext (Callback entry) (drop Pos Bitstream) Pos (mnemo entry) cx of
        ((code, comment, after_code), x) \<Rightarrow>
          cx\<lparr>dis_code := code, dis_comment := comment, dis_after_code := after_code,
             collab := x\<rparr>)"

text \<open>One turn of the loop of pass 1: the new cursor and context.\<close>

definition Disassemble_pass1_step ::
  "'x externals \<Rightarrow> byte list \<Rightarrow> nat \<Rightarrow> 'x libavrdude_context \<Rightarrow> (nat \<times> 'x libavrdude_context) outcome" where
  "Disassemble_pass1_step ext Bitstream Pos cx =
     (case Get_Next_Opcode (dis_op cx) (drop Pos Bitstream) (dis_regs cx) of
        Out_Of_Bounds \<Rightarrow> Out_Of_Bounds
      | Result (Opcode, regs) \<Rightarrow>
          (let cx1 = cx\<lparr>dis_regs := regs\<rparr>
           in if Opcode = - 1 then Result (Pos + 2, cx1)
              else
                (let entry = dis_op cx1 ! nat Opcode;
                     cx2 = run_callback ext entry Bitstream Pos cx1
                 in Result (Pos + Get_Bitmask_Length (Opcode_String entry) div 8, cx2))))"

partial_function (option) Disassemble_pass1 ::
  "'x externals \<Rightarrow> byte list \<Rightarrow> int \<Rightarrow> nat \<Rightarrow> 'x libavrdude_context \<Rightarrow> 'x libavrdude_context outcome option" where
  "Disassemble_pass1 ext Bitstream Read Pos cx =
     (if int Pos < Read then
        (case Disassemble_pass1_step ext Bitstream Pos cx of
           Out_Of_Bounds \<Rightarrow> Some Out_Of_Bounds
         | Result (Pos', cx') \<Rightarrow> Disassemble_pass1 ext Bitstream Read Pos' cx')
      else Some (Result cx))"

text \<open>The printing of a matched instruction in pass 2, after its callback has run.\<close>

definition Disassemble_print ::
  "'x externals \<Rightarrow> Disasm_opcode \<Rightarrow> byte list \<Rightarrow> nat \<Rightarrow> 'x libavrdude_context \<Rightarrow> 'x libavrdude_context outcome" where
  "Disassemble_print ext entry Bitstream Pos cx =
     (let opts = dis_opts cx;
          n = Get_Bitmask_Length (Opcode_String entry) div 8;
          cx1 = (if Process_Labels opts then
                   (case Print_JumpCalls ext Pos (collab cx) of
                      (lines, x) \<Rightarrow> emit (map Text lines) (cx\<lparr>collab := x\<rparr>))
                 else cx);
          cx2 = (if Show_Addresses opts then emit [Address Pos] cx1 else cx1);
          cx3 = (if Show_Cycles opts then emit [Cycles (mnemo entry)] cx2 else cx2)
      in if Show_Opcodes opts \<and> \<not> Pos + n \<le> length Bitstream then Out_Of_Bounds
         else
           (let cx4 = (if Show_Opcodes opts
                       then emit [Opcode_Bytes (take n (drop Pos Bitstream)) (5 - n)] cx3
                       else cx3);
                cx5 = (if dis_code cx4 = [] then emit [Not_Implemented (mnemo entry)] cx4
                       else if dis_comment cx4 = [] \<or> \<not> Show_Comments opts
                         then emit [Code (dis_code cx4)] cx4
                       else if \<not> Show_PseudoCode opts
                         then emit [Code_Comment 23 (dis_code cx4) (dis_comment cx4)] cx4
                       else emit [Code_Comment 35 (dis_code cx4) (dis_comment cx4)] cx4)
            in Result (emit [After_Code (dis_after_code cx5)] cx5)))"

text \<open>One turn of the loop of pass 2.\<close>

definition Disassemble_pass2_step ::
  "'x externals \<Rightarrow> byte list \<Rightarrow> nat \<Rightarrow> 'x libavrdude_context \<Rightarrow> (nat \<times> 'x libavrdude_context) outcome" where
  "Disassemble_pass2_step ext Bitstream Pos cx =
     (case Tagfile_Process_Data ext Bitstream Pos (collab cx) of
        (Added, lines, x) \<Rightarrow>
          (let cx0 = emit (map Text lines) (cx\<lparr>collab := x\<rparr>)
           in if Added \<noteq> 0 then Result (Pos + Added, cx0)
              else
                (case Get_Next_Opcode (dis_op cx0) (drop Pos Bitstream) (dis_regs cx0) of
                   Out_Of_Bounds \<Rightarrow> Out_Of_Bounds
                 | Result (Opcode, regs) \<Rightarrow>
                     (let cx1 = cx0\<lparr>dis_regs := regs\<rparr>
                      in if Opcode \<noteq> - 1 then
                           (let entry = dis_op cx1 ! nat Opcode;
                                cx2 = cx1\<lparr>dis_code := [], dis_comment := [], dis_after_code := []\<rparr>;
                                cx3 = run_callback ext entry Bitstream Pos cx2
                            in case Disassemble_print ext entry Bitstream Pos cx3 of
                                 Out_Of_Bounds \<Rightarrow> Out_Of_Bounds
                               | Result cx4 \<Rightarrow>
                                   Result (Pos + Get_Bitmask_Length (Opcode_String entry) div 8, cx4))
                         else if Pos + 1 < length Bitstream then
                           Result (Pos + 2,
                             emit [Invalid_Opcode (Bitstream ! (Pos + 1)) (Bitstream ! Pos) Pos] cx1)
                         else Out_Of_Bounds))))"

partial_function (option) Disassemble_pass2 ::
  "'x externals \<Rightarrow> byte list \<Rightarrow> int \<Rightarrow> nat \<Rightarrow> 'x libavrdude_context \<Rightarrow> 'x libavrdude_context outcome option" where
  "Disassemble_pass2 ext Bitstream Read Pos cx =
     (if int Pos < Read then
        (case Disassemble_pass2_step ext Bitstream Pos cx of
           Out_Of_Bounds \<Rightarrow> Some Out_Of_Bounds
         | Result (Pos', cx') \<Rightarrow> Disassemble_pass2 ext Bitstream Read Pos' cx')
      else Some (Result cx))"

definition set_Pass :: "nat \<Rightarrow> 'x libavrdude_context \<Rightarrow> 'x libavrdude_context" where
  "set_Pass n cx = cx\<lparr>dis_opts := (dis_opts cx)\<lparr>Pass := n\<rparr>\<rparr>"

definition Disassemble ::
  "'x externals \<Rightarrow> byte list \<Rightarrow> int \<Rightarrow> int \<Rightarrow> 'x libavrdude_context \<Rightarrow> 'x libavrdude_context outcome option" where
  "Disassemble ext Bitstream Read addr cx =
     (let cx0 = set_Pass 1 cx;
          opts = dis_opts cx0
      in and_then
           (if Process_Labels opts \<or> (\<not> Show_PseudoCode opts \<and> CodeStyle opts = CODESTYLE_AVRGCC)
            then and_then (Disassemble_pass1 ext Bitstream Read 0 cx0)
                   (\<lambda>cx1. Some (Result
                      (set_Pass 2 (cx1\<lparr>collab := Enumerate_Labels ext (collab cx1)\<rparr>))))
            else Some (Result cx0))
           (\<lambda>cx2.
              (let cx3 = (if CodeStyle opts = CODESTYLE_AVRGCC then
                            (case Emit_Used_IO_Registers ext (collab cx2) of
                               (lines, x) \<Rightarrow> emit (map Text lines) (cx2\<lparr>collab := x\<rparr>))
                          else cx2)
               in and_then (Disassemble_pass2 ext Bitstream Read 0 cx3)
                    (\<lambda>cx4. Some (Result
                       (if Show_PseudoCode opts then emit [Closing_Brace] cx4 else cx4))))))"

section \<open>The entry point\<close>

text \<open>The calls of \<open>Register_Opcode\<close> and of \<open>Supersede_Opcode\<close> in \<open>disasm\<close>, in order.\<close>

definition registrations :: "(callback \<times> string \<times> AVR_opcode) list" where
  "registrations =
   [(''adc_Callback'', ''0001 11rd  dddd rrrr'', ''OPCODE_adc''),
    (''add_Callback'', ''0000 11rd  dddd rrrr'', ''OPCODE_add''),
    (''adiw_Callback'', ''1001 0110  KKdd KKKK'', ''OPCODE_adiw''),
    (''and_Callback'', ''0010 00rd  dddd rrrr'', ''OPCODE_and''),
    (''andi_Callback'', ''0111 KKKK  dddd KKKK'', ''OPCODE_andi''),
    (''asr_Callback'', ''1001 010d  dddd 0101'', ''OPCODE_asr''),
    (''bclr_Callback'', ''1001 0100  1sss 1000'', ''OPCODE_bclr''),
    (''bld_Callback'', ''1111 100d  dddd 0bbb'', ''OPCODE_bld''),
    (''brbc_Callback'', ''1111 01kk  kkkk ksss'', ''OPCODE_brbc''),
    (''brbs_Callback'', ''1111 00kk  kkkk ksss'', ''OPCODE_brbs''),
    (''brcc_Callback'', ''1111 01kk  kkkk k000'', ''OPCODE_brcc''),
    (''brcs_Callback'', ''1111 00kk  kkkk k000'', ''OPCODE_brcs''),
    (''break_Callback'', ''1001 0101  1001 1000'', ''OPCODE_break''),
    (''breq_Callback'', ''1111 00kk  kkkk k001'', ''OPCODE_breq''),
    (''brge_Callback'', ''1111 01kk  kkkk k100'', ''OPCODE_brge''),
    (''brhc_Callback'', ''1111 01kk  kkkk k101'', ''OPCODE_brhc''),
    (''brhs_Callback'', ''1111 00kk  kkkk k101'', ''OPCODE_brhs''),
    (''brid_Callback'', ''1111 01kk  kkkk k111'', ''OPCODE_brid''),
    (''brie_Callback'', ''1111 00kk  kkkk k111'', ''OPCODE_brie''),
    (''brlo_Callback'', ''1111 00kk  kkkk k000'', ''OPCODE_brlo''),
    (''brlt_Callback'', ''1111 00kk  kkkk k100'', ''OPCODE_brlt''),
    (''brmi_Callback'', ''1111 00kk  kkkk k010'', ''OPCODE_brmi''),
    (''brne_Callback'', ''1111 01kk  kkkk k001'', ''OPCODE_brne''),
    (''brpl_Callback'', ''1111 01kk  kkkk k010'', ''OPCODE_brpl''),
    (''brsh_Callback'', ''1111 01kk  kkkk k000'', ''OPCODE_brsh''),
    (''brtc_Callback'', ''1111 01kk  kkkk k110'', ''OPCODE_brtc''),
    (''brts_Callback'', ''1111 00kk  kkkk k110'', ''OPCODE_brts''),
    (''brvc_Callback'', ''1111 01kk  kkkk k011'', ''OPCODE_brvc''),
    (''brvs_Callback'', ''1111 00kk  kkkk k011'', ''OPCODE_brvs''),
    (''bset_Callback'', ''1001 0100  0sss 1000'', ''OPCODE_bset''),
    (''bst_Callback'', ''1111 101d  dddd 0bbb'', ''OPCODE_bst''),
    (''call_Callback'', ''1001 010k  kkkk 111k    kkkk kkkk  kkkk kkkk'', ''OPCODE_call''),
    (''cbi_Callback'', ''1001 1000  AAAA Abbb'', ''OPCODE_cbi''),
    (''clc_Callback'', ''1001 0100  1000 1000'', ''OPCODE_clc''),
    (''clh_Callback'', ''1001 0100  1101 1000'', ''OPCODE_clh''),
    (''cli_Callback'', ''1001 0100  1111 1000'', ''OPCODE_cli''),
    (''cln_Callback'', ''1001 0100  1010 1000'', ''OPCODE_cln''),
    (''cls_Callback'', ''1001 0100  1100 1000'', ''OPCODE_cls''),
    (''clt_Callback'', ''1001 0100  1110 1000'', ''OPCODE_clt''),
    (''clv_Callback'', ''1001 0100  1011 1000'', ''OPCODE_clv''),
    (''clz_Callback'', ''1001 0100  1001 1000'', ''OPCODE_clz''),
    (''com_Callback'', ''1001 010d  dddd 0000'', ''OPCODE_com''),
    (''cp_Callback'', ''0001 01rd  dddd rrrr'', ''OPCODE_cp''),
    (''cpc_Callback'', ''0000 01rd  dddd rrrr'', ''OPCODE_cpc''),
    (''cpi_Callback'', ''0011 KKKK  dddd KKKK'', ''OPCODE_cpi''),
    (''cpse_Callback'', ''0001 00rd  dddd rrrr'', ''OPCODE_cpse''),
    (''dec_Callback'', ''1001 010d  dddd 1010'', ''OPCODE_dec''),
    (''eicall_Callback'', ''1001 0101  0001 1001'', ''OPCODE_eicall''),
    (''eijmp_Callback'', ''1001 0100  0001 1001'', ''OPCODE_eijmp''),
    (''elpm1_Callback'', ''1001 0101  1101 1000'', ''OPCODE_elpm_1''),
    (''elpm2_Callback'', ''1001 000d  dddd 0110'', ''OPCODE_elpm_2''),
    (''elpm3_Callback'', ''1001 000d  dddd 0111'', ''OPCODE_elpm_3''),
    (''eor_Callback'', ''0010 01rd  dddd rrrr'', ''OPCODE_eor''),
    (''fmul_Callback'', ''0000 0011  0ddd 1rrr'', ''OPCODE_fmul''),
    (''fmuls_Callback'', ''0000 0011  1ddd 0rrr'', ''OPCODE_fmuls''),
    (''fmulsu_Callback'', ''0000 0011  1ddd 1rrr'', ''OPCODE_fmulsu''),
    (''icall_Callback'', ''1001 0101  0000 1001'', ''OPCODE_icall''),
    (''ijmp_Callback'', ''1001 0100  0000 1001'', ''OPCODE_ijmp''),
    (''in_Callback'', ''1011 0AAd  dddd AAAA'', ''OPCODE_in''),
    (''inc_Callback'', ''1001 010d  dddd 0011'', ''OPCODE_inc''),
    (''jmp_Callback'', ''1001 010k  kkkk 110k    kkkk kkkk  kkkk kkkk'', ''OPCODE_jmp''),
    (''ldx1_Callback'', ''1001 000d  dddd 1100'', ''OPCODE_ld_1''),
    (''ldx2_Callback'', ''1001 000d  dddd 1101'', ''OPCODE_ld_2''),
    (''ldx3_Callback'', ''1001 000d  dddd 1110'', ''OPCODE_ld_3''),
    (''ldy1_Callback'', ''1000 000d  dddd 1000'', ''OPCODE_ld_4''),
    (''ldy2_Callback'', ''1001 000d  dddd 1001'', ''OPCODE_ld_5''),
    (''ldy3_Callback'', ''1001 000d  dddd 1010'', ''OPCODE_ld_6''),
    (''ldy4_Callback'', ''10q0 qq0d  dddd 1qqq'', ''OPCODE_ldd_1''),
    (''ldz1_Callback'', ''1000 000d  dddd 0000'', ''OPCODE_ld_7''),
    (''ldz2_Callback'', ''1001 000d  dddd 0001'', ''OPCODE_ld_8''),
    (''ldz3_Callback'', ''1001 000d  dddd 0010'', ''OPCODE_ld_9''),
    (''ldz4_Callback'', ''10q0 qq0d  dddd 0qqq'', ''OPCODE_ldd_2''),
    (''ldi_Callback'', ''1110 KKKK  dddd KKKK'', ''OPCODE_ldi''),
    (''lds_Callback'', ''1001 000d  dddd 0000    kkkk kkkk  kkkk kkkk'', ''OPCODE_lds''),
    (''lpm1_Callback'', ''1001 0101  1100 1000'', ''OPCODE_lpm_1''),
    (''lpm2_Callback'', ''1001 000d  dddd 0100'', ''OPCODE_lpm_2''),
    (''lpm3_Callback'', ''1001 000d  dddd 0101'', ''OPCODE_lpm_3''),
    (''lsr_Callback'', ''1001 010d  dddd 0110'', ''OPCODE_lsr''),
    (''mov_Callback'', ''0010 11rd  dddd rrrr'', ''OPCODE_mov''),
    (''movw_Callback'', ''0000 0001  dddd rrrr'', ''OPCODE_movw''),
    (''mul_Callback'', ''1001 11rd  dddd rrrr'', ''OPCODE_mul''),
    (''muls_Callback'', ''0000 0010  dddd rrrr'', ''OPCODE_muls''),
    (''mulsu_Callback'', ''0000 0011  0ddd 0rrr'', ''OPCODE_mulsu''),
    (''neg_Callback'', ''1001 010d  dddd 0001'', ''OPCODE_neg''),
    (''nop_Callback'', ''0000 0000  0000 0000'', ''OPCODE_nop''),
    (''or_Callback'', ''0010 10rd  dddd rrrr'', ''OPCODE_or''),
    (''ori_Callback'', ''0110 KKKK  dddd KKKK'', ''OPCODE_ori''),
    (''out_Callback'', ''1011 1AAr  rrrr AAAA'', ''OPCODE_out''),
    (''pop_Callback'', ''1001 000d  dddd 1111'', ''OPCODE_pop''),
    (''push_Callback'', ''1001 001d  dddd 1111'', ''OPCODE_push''),
    (''rcall_Callback'', ''1101 kkkk  kkkk kkkk'', ''OPCODE_rcall''),
    (''ret_Callback'', ''1001 0101  0000 1000'', ''OPCODE_ret''),
    (''reti_Callback'', ''1001 0101  0001 1000'', ''OPCODE_reti''),
    (''rjmp_Callback'', ''1100 kkkk  kkkk kkkk'', ''OPCODE_rjmp''),
    (''ror_Callback'', ''1001 010d  dddd 0111'', ''OPCODE_ror''),
    (''sbc_Callback'', ''0000 10rd  dddd rrrr'', ''OPCODE_sbc''),
    (''sbci_Callback'', ''0100 KKKK  dddd KKKK'', ''OPCODE_sbci''),
    (''sbi_Callback'', ''1001 1010  AAAA Abbb'', ''OPCODE_sbi''),
    (''sbic_Callback'', ''1001 1001  AAAA Abbb'', ''OPCODE_sbic''),
    (''sbis_Callback'', ''1001 1011  AAAA Abbb'', ''OPCODE_sbis''),
    (''sbiw_Callback'', ''1001 0111  KKdd KKKK'', ''OPCODE_sbiw''),
    (''sbr_Callback'', ''0110 KKKK  dddd KKKK'', ''OPCODE_sbr''),
    (''sbrc_Callback'', ''1111 110r  rrrr 0bbb'', ''OPCODE_sbrc''),
    (''sbrs_Callback'', ''1111 111r  rrrr 0bbb'', ''OPCODE_sbrs''),
    (''sec_Callback'', ''1001 0100  0000 1000'', ''OPCODE_sec''),
    (''seh_Callback'', ''1001 0100  0101 1000'', ''OPCODE_seh''),
    (''sei_Callback'', ''1001 0100  0111 1000'', ''OPCODE_sei''),
    (''sen_Callback'', ''1001 0100  0010 1000'', ''OPCODE_sen''),
    (''ser_Callback'', ''1110 1111  dddd 1111'', ''OPCODE_ser''),
    (''ses_Callback'', ''1001 0100  0100 1000'', ''OPCODE_ses''),
    (''set_Callback'', ''1001 0100  0110 1000'', ''OPCODE_set''),
    (''sev_Callback'', ''1001 0100  0011 1000'', ''OPCODE_sev''),
    (''sez_Callback'', ''1001 0100  0001 1000'', ''OPCODE_sez''),
    (''sleep_Callback'', ''1001 0101  1000 1000'', ''OPCODE_sleep''),
    (''spm_Callback'', ''1001 0101  1110 1000'', ''OPCODE_spm''),
    (''stx1_Callback'', ''1001 001r  rrrr 1100'', ''OPCODE_st_1''),
    (''stx2_Callback'', ''1001 001r  rrrr 1101'', ''OPCODE_st_2''),
    (''stx3_Callback'', ''1001 001r  rrrr 1110'', ''OPCODE_st_3''),
    (''sty1_Callback'', ''1000 001r  rrrr 1000'', ''OPCODE_st_4''),
    (''sty2_Callback'', ''1001 001r  rrrr 1001'', ''OPCODE_st_5''),
    (''sty3_Callback'', ''1001 001r  rrrr 1010'', ''OPCODE_st_6''),
    (''sty4_Callback'', ''10q0 qq1r  rrrr 1qqq'', ''OPCODE_std_1''),
    (''stz1_Callback'', ''1000 001r  rrrr 0000'', ''OPCODE_st_7''),
    (''stz2_Callback'', ''1001 001r  rrrr 0001'', ''OPCODE_st_8''),
    (''stz3_Callback'', ''1001 001r  rrrr 0010'', ''OPCODE_st_9''),
    (''stz4_Callback'', ''10q0 qq1r  rrrr 0qqq'', ''OPCODE_std_2''),
    (''sts_Callback'', ''1001 001d  dddd 0000    kkkk kkkk  kkkk kkkk'', ''OPCODE_sts''),
    (''sub_Callback'', ''0001 10rd  dddd rrrr'', ''OPCODE_sub''),
    (''subi_Callback'', ''0101 KKKK  dddd KKKK'', ''OPCODE_subi''),
    (''swap_Callback'', ''1001 010d  dddd 0010'', ''OPCODE_swap''),
    (''wdr_Callback'', ''1001 0101  1010 1000'', ''OPCODE_wdr'')]"

definition supersessions :: "(callback \<times> AVR_opcode) list" where
  "supersessions =
   [(''adc_Callback_PC'', ''OPCODE_adc''),
    (''add_Callback_PC'', ''OPCODE_add''),
    (''sub_Callback_PC'', ''OPCODE_sub''),
    (''sbc_Callback_PC'', ''OPCODE_sbc''),
    (''mov_Callback_PC'', ''OPCODE_mov''),
    (''brcc_Callback_PC'', ''OPCODE_brcc''),
    (''brcs_Callback_PC'', ''OPCODE_brcs''),
    (''breq_Callback_PC'', ''OPCODE_breq''),
    (''brge_Callback_PC'', ''OPCODE_brge''),
    (''brhc_Callback_PC'', ''OPCODE_brhc''),
    (''brhs_Callback_PC'', ''OPCODE_brhs''),
    (''brid_Callback_PC'', ''OPCODE_brid''),
    (''brie_Callback_PC'', ''OPCODE_brie''),
    (''brlo_Callback_PC'', ''OPCODE_brlo''),
    (''brlt_Callback_PC'', ''OPCODE_brlt''),
    (''brmi_Callback_PC'', ''OPCODE_brmi''),
    (''brne_Callback_PC'', ''OPCODE_brne''),
    (''brpl_Callback_PC'', ''OPCODE_brpl''),
    (''brsh_Callback_PC'', ''OPCODE_brsh''),
    (''brtc_Callback_PC'', ''OPCODE_brtc''),
    (''brts_Callback_PC'', ''OPCODE_brts''),
    (''brvc_Callback_PC'', ''OPCODE_brvc''),
    (''brvs_Callback_PC'', ''OPCODE_brvs''),
    (''out_Callback_PC'', ''OPCODE_out''),
    (''in_Callback_PC'', ''OPCODE_in''),
    (''cli_Callback_PC'', ''OPCODE_cli''),
    (''sei_Callback_PC'', ''OPCODE_sei''),
    (''ret_Callback_PC'', ''OPCODE_ret''),
    (''reti_Callback_PC'', ''OPCODE_reti''),
    (''andi_Callback_PC'', ''OPCODE_andi''),
    (''subi_Callback_PC'', ''OPCODE_subi''),
    (''sbci_Callback_PC'', ''OPCODE_sbci''),
    (''sbr_Callback_PC'', ''OPCODE_sbr''),
    (''ori_Callback_PC'', ''OPCODE_ori''),
    (''ldi_Callback_PC'', ''OPCODE_ldi''),
    (''lds_Callback_PC'', ''OPCODE_lds''),
    (''sts_Callback_PC'', ''OPCODE_sts''),
    (''call_Callback_PC'', ''OPCODE_call''),
    (''rcall_Callback_PC'', ''OPCODE_rcall''),
    (''ror_Callback_PC'', ''OPCODE_ror''),
    (''lsr_Callback_PC'', ''OPCODE_lsr''),
    (''eor_Callback_PC'', ''OPCODE_eor''),
    (''swap_Callback_PC'', ''OPCODE_swap''),
    (''jmp_Callback_PC'', ''OPCODE_jmp''),
    (''rjmp_Callback_PC'', ''OPCODE_rjmp''),
    (''cpi_Callback_PC'', ''OPCODE_cpi''),
    (''asr_Callback_PC'', ''OPCODE_asr''),
    (''inc_Callback_PC'', ''OPCODE_inc''),
    (''dec_Callback_PC'', ''OPCODE_dec''),
    (''cp_Callback_PC'', ''OPCODE_cp''),
    (''cpc_Callback_PC'', ''OPCODE_cpc''),
    (''cpse_Callback_PC'', ''OPCODE_cpse''),
    (''and_Callback_PC'', ''OPCODE_and''),
    (''or_Callback_PC'', ''OPCODE_or''),
    (''mul_Callback_PC'', ''OPCODE_mul''),
    (''sbi_Callback_PC'', ''OPCODE_sbi''),
    (''sbis_Callback_PC'', ''OPCODE_sbis''),
    (''sbic_Callback_PC'', ''OPCODE_sbic''),
    (''cbi_Callback_PC'', ''OPCODE_cbi''),
    (''ser_Callback_PC'', ''OPCODE_ser''),
    (''movw_Callback_PC'', ''OPCODE_movw''),
    (''adiw_Callback_PC'', ''OPCODE_adiw''),
    (''lpm1_Callback_PC'', ''OPCODE_lpm_1''),
    (''stx2_Callback_PC'', ''OPCODE_st_2'')]"

definition register_all :: "'x libavrdude_context \<Rightarrow> 'x libavrdude_context" where
  "register_all cx =
     fold (\<lambda>(cb, New_Opcode_String, m). Register_Opcode cb New_Opcode_String m) registrations
       (cx\<lparr>dis_op := []\<rparr>)"

definition supersede_all :: "'x libavrdude_context \<Rightarrow> 'x libavrdude_context" where
  "supersede_all cx = fold (\<lambda>(cb, m). Supersede_Opcode cb m) supersessions cx"

text \<open>
  \<open>disasm\<close>: read the tag file if one is given (\<open>read_tagfile\<close>; return 0 at once if
  that fails),
  rebuild the registry (\<open>build_registry\<close>: the registrations, the supersessions when
  pseudocode is asked for, then \<open>qsort\<close> with \<open>Comparison\<close>), check that every row of
  \<open>avr_opcodes\<close> carries its own index as mnemonic (and return \<open>-1\<close> if one does not),
  then disassemble and return 0.
\<close>

definition table_broken :: "'x externals \<Rightarrow> bool" where
  "table_broken ext =
     list_ex (\<lambda>i. avr_opcodes ext ! i \<noteq> i) [0..<length (avr_opcodes ext)]"

definition build_registry :: "'x externals \<Rightarrow> 'x libavrdude_context \<Rightarrow> 'x libavrdude_context" where
  "build_registry ext cx =
     (let cx1 = register_all cx;
          cx2 = (if Show_PseudoCode (dis_opts cx1) then supersede_all cx1 else cx1)
      in cx2\<lparr>dis_op := qsort ext Comparison (dis_op cx2)\<rparr>)"

definition read_tagfile :: "'x externals \<Rightarrow> 'x libavrdude_context \<Rightarrow> bool \<times> 'x" where
  "read_tagfile ext cx =
     (case Tagfile (dis_opts cx) of
        None \<Rightarrow> (True, collab cx)
      | Some name \<Rightarrow> Read_Tagfile ext name (collab cx))"

definition disasm ::
  "'x externals \<Rightarrow> byte list \<Rightarrow> int \<Rightarrow> int \<Rightarrow> 'x libavrdude_context
     \<Rightarrow> (int \<times> 'x libavrdude_context) outcome option" where
  "disasm ext Bitstream Read addr cx =
     (case read_tagfile ext cx of
        (ok, x) \<Rightarrow>
          if \<not> ok then Some (Result (0, cx\<lparr>collab := x\<rparr>))
          else
            (let cx3 = build_registry ext (cx\<lparr>collab := x\<rparr>)
             in if table_broken ext then
                  Some (Result (- 1,
                    cx3\<lparr>stderr := stderr cx3 @
                      [''avr_opcodes[] table broken (this should never happen)'']\<rparr>))
                else and_then (Disassemble ext Bitstream Read addr cx3)
                       (\<lambda>cx4. Some (Result (0, cx4)))))"

section \<open>What is known of the library's sort\<close>

text \<open>
  \<open>qsort\<close> belongs to the C library. Its contract: the array afterwards holds the same
  elements, in ascending order of the comparison function; the order of elements that
  compare equal is unspecified. \<open>qsort_contract\<close> says so for the one comparison function
  the file sorts with.
\<close>

definition qsort_contract ::
  "((Disasm_opcode \<Rightarrow> Disasm_opcode \<Rightarrow> int) \<Rightarrow> Disasm_opcode list \<Rightarrow> Disasm_opcode list) \<Rightarrow> bool" where
  "qsort_contract q =
     (\<forall>xs. mset (q Comparison xs) = mset xs \<and>
           sorted_wrt (\<lambda>a b. Comparison a b \<le> 0) (q Comparison xs))"

text \<open>
  Two sorts that keep the contract: insertion sort, which leaves equal elements in their
  order, and insertion sort of the reversed array, which reverses them.
\<close>

fun insert_by :: "('a \<Rightarrow> 'a \<Rightarrow> int) \<Rightarrow> 'a \<Rightarrow> 'a list \<Rightarrow> 'a list" where
  "insert_by cmp x [] = [x]"
| "insert_by cmp x (y # ys) = (if cmp x y \<le> 0 then x # y # ys else y # insert_by cmp x ys)"

definition insertion_qsort :: "('a \<Rightarrow> 'a \<Rightarrow> int) \<Rightarrow> 'a list \<Rightarrow> 'a list" where
  "insertion_qsort cmp xs = foldr (insert_by cmp) xs []"

definition reversing_qsort :: "('a \<Rightarrow> 'a \<Rightarrow> int) \<Rightarrow> 'a list \<Rightarrow> 'a list" where
  "reversing_qsort cmp xs = insertion_qsort cmp (rev xs)"

section \<open>Collaborators and contexts for worked examples\<close>

text \<open>
  Collaborators that do nothing: no tag file data, no labels, callbacks that render the
  mnemonic as the code text; an opcode table given by the caller; and insertion sort for
  \<open>qsort\<close>.
\<close>

definition plain_externals :: "nat list \<Rightarrow> unit externals" where
  "plain_externals table =
     \<lparr>Read_Tagfile = (\<lambda>name x. (True, x)),
      Tagfile_Process_Data = (\<lambda>Bitstream Pos x. (0, [], x)),
      Enumerate_Labels = (\<lambda>x. x),
      Emit_Used_IO_Registers = (\<lambda>x. ([], x)),
      Print_JumpCalls = (\<lambda>Pos x. ([], x)),
      invoke = (\<lambda>cb Bitstream Pos m cx. ((m, [], []), ())),
      avr_opcodes = table,
      qsort = insertion_qsort\<rparr>"

definition plain_options :: Disasm_options where
  "plain_options =
     \<lparr>Show_Addresses = False, Show_Opcodes = False, Show_Comments = False, Show_Cycles = False,
      Show_PseudoCode = False, Process_Labels = False, CodeStyle = CODESTYLE_other,
      Tagfile = None, Pass = 0\<rparr>"

definition plain_context :: "unit libavrdude_context" where
  "plain_context =
     \<lparr>dis_opts = plain_options, dis_op = [], dis_regs = (\<lambda>c. 0), dis_code = [],
      dis_comment = [], dis_after_code = [], stdout = [], stderr = [], collab = ()\<rparr>"

section \<open>Vocabulary for the statements about the matcher\<close>

text \<open>
  The significant characters of a pattern are the non-blank ones; position \<open>i\<close> of a
  pattern is the \<open>i\<close>-th of them. A literal is a \<open>0\<close> or a \<open>1\<close>. The stream bit of
  position \<open>i\<close> is bit \<open>7 - i mod 8\<close> of byte \<open>(i div 8) XOR 1\<close>.
\<close>

definition significant :: "string \<Rightarrow> string" where
  "significant Bitmask = filter (\<lambda>c. c \<noteq> CHR '' '') Bitmask"

definition literal :: "char \<Rightarrow> bool" where
  "literal c = (c = CHR ''0'' \<or> c = CHR ''1'')"

definition stream_bit :: "byte list \<Rightarrow> nat \<Rightarrow> bool" where
  "stream_bit Bitstream i = bit (Bitstream ! ((i div 8) XOR 1)) (7 - i mod 8)"

definition agrees :: "string \<Rightarrow> byte list \<Rightarrow> nat \<Rightarrow> bool" where
  "agrees Bitmask Bitstream k =
     (literal (significant Bitmask ! k) \<longrightarrow>
        stream_bit Bitstream k = (significant Bitmask ! k = CHR ''1''))"

text \<open>
  The stream bits of the positions that hold the character \<open>c\<close>, in pattern order, and the
  32-bit value they make when each is appended as the new least significant bit.
\<close>

definition field_bits :: "string \<Rightarrow> byte list \<Rightarrow> char \<Rightarrow> bool list" where
  "field_bits Bitmask Bitstream c =
     map (stream_bit Bitstream)
       (filter (\<lambda>k. significant Bitmask ! k = c) [0..<length (significant Bitmask)])"

definition assemble :: "bool list \<Rightarrow> 32 word" where
  "assemble bits = foldl (\<lambda>acc b. push_bit 1 acc OR of_bool b) 0 bits"

definition field_value :: "string \<Rightarrow> byte list \<Rightarrow> char \<Rightarrow> nat list \<Rightarrow> 32 word \<Rightarrow> 32 word" where
  "field_value Bitmask Bitstream c ks start =
     foldl (\<lambda>acc k. push_bit 1 acc OR of_bool (stream_bit Bitstream k)) start
       (filter (\<lambda>k. significant Bitmask ! k = c) ks)"

text \<open>
  A pattern is all-literal when every significant character is a \<open>0\<close> or a \<open>1\<close>. An
  entry is accepted for the bytes at hand when \<open>Match_Opcode\<close> returns 1 on its pattern
  (the accumulators it starts from do not matter, it clears them).
\<close>

definition all_literal :: "string \<Rightarrow> bool" where
  "all_literal Bitmask = list_all literal (significant Bitmask)"

definition specificity :: "Disasm_opcode \<Rightarrow> nat" where
  "specificity entry = Get_Specifity (Opcode_String entry)"

definition accepts :: "Disasm_opcode \<Rightarrow> byte list \<Rightarrow> bool" where
  "accepts entry Bitstream =
     (case Match_Opcode (Opcode_String entry) Bitstream (\<lambda>c. 0) of
        Out_Of_Bounds \<Rightarrow> False
      | Result (r, regs) \<Rightarrow> r = 1)"

definition covered :: "Disasm_opcode \<Rightarrow> byte list \<Rightarrow> bool" where
  "covered entry Bitstream =
     list_all (\<lambda>i. (i div 8) XOR 1 < length Bitstream)
       [0..<Get_Bitmask_Length (Opcode_String entry)]"

text \<open>
  For \<open>Compare_Opcode\<close>: the characters it accepts, the index of the first character of
  a pattern it does not accept (the length of the pattern when there is none), and
  agreement of a raw pattern index with the stream (byte \<open>k div 8\<close>, no byte swap).
\<close>

definition mask_char :: "char \<Rightarrow> bool" where
  "mask_char c = (c = CHR ''x'' \<or> c = CHR ''1'' \<or> c = CHR ''0'')"

definition first_invalid :: "string \<Rightarrow> nat" where
  "first_invalid Bitmask = length (takeWhile mask_char Bitmask)"

definition compare_agrees :: "byte list \<Rightarrow> string \<Rightarrow> nat \<Rightarrow> bool" where
  "compare_agrees Bitstream Bitmask k =
     (Bitmask ! k = CHR ''x'' \<or>
      bit (Bitstream ! (k div 8)) (7 - k mod 8) = (Bitmask ! k = CHR ''1''))"

text \<open>
  A registry fits \<open>M\<close> bytes when every pattern has at least 8 and at most \<open>8 * M\<close>
  significant characters.
\<close>

definition registry_fits :: "Disasm_opcode list \<Rightarrow> nat \<Rightarrow> bool" where
  "registry_fits ops M =
     list_all (\<lambda>entry. 8 \<le> Get_Bitmask_Length (Opcode_String entry) \<and>
                       Get_Bitmask_Length (Opcode_String entry) \<le> 8 * M) ops"

section \<open>Facts about the pattern helpers\<close>

lemma fold_count_blank:
  "fold (\<lambda>c Length. if c \<noteq> CHR '' '' then Length + 1 else Length) xs n
     = n + length (filter (\<lambda>c. c \<noteq> CHR '' '') xs)"
  by (induction xs arbitrary: n) auto

lemma Get_Bitmask_Length_significant:
  "Get_Bitmask_Length Bitmask = length (significant Bitmask)"
  by (simp add: Get_Bitmask_Length_def significant_def fold_count_blank)

lemma Get_From_Bitmask_loop_nth:
  "Cnt \<le> GetBit \<Longrightarrow> GetBit - Cnt < length (significant Bitmask) \<Longrightarrow>
   Get_From_Bitmask_loop Bitmask Cnt GetBit = significant Bitmask ! (GetBit - Cnt)"
proof (induction Bitmask arbitrary: Cnt)
  case Nil
  then show ?case by (simp add: significant_def)
next
  case (Cons c cs)
  show ?case
  proof (cases "c = CHR '' ''")
    case True
    with Cons show ?thesis by (simp add: significant_def)
  next
    case False
    show ?thesis
    proof (cases "Cnt = GetBit")
      case True
      with False show ?thesis by (simp add: significant_def)
    next
      case neq: False
      with Cons.prems have lt: "Cnt + 1 \<le> GetBit" by simp
      have "GetBit - (Cnt + 1) < length (significant cs)"
        using Cons.prems False neq by (simp add: significant_def)
      from Cons.IH [OF lt this] False neq lt show ?thesis
        by (simp add: significant_def nth_Cons')
    qed
  qed
qed

lemma Get_From_Bitmask_nth:
  "i < length (significant Bitmask) \<Longrightarrow>
   Get_From_Bitmask Bitmask (i div 8) (i mod 8) = significant Bitmask ! i"
  using Get_From_Bitmask_loop_nth [of 0 i Bitmask]
  by (simp add: Get_From_Bitmask_def)

lemma stream_val: "drop_bit k (b :: byte) AND 1 = of_bool (bit b k)"
  by (simp add: and_one_eq bit_iff_odd_drop_bit mod_2_eq_odd)

lemma all_from_Suc:
  "i < L \<Longrightarrow> (\<forall>k. i \<le> k \<and> k < L \<longrightarrow> P k) = (P i \<and> (\<forall>k. Suc i \<le> k \<and> k < L \<longrightarrow> P k))"
  by (metis Suc_leD Suc_leI le_neq_implies_less order_refl)

lemma stream_index_bound:
  assumes "even (n :: nat)" "i < 8 * n"
  shows "(i div 8) XOR 1 < n"
proof -
  from assms(2) have "i div 8 < n" by simp
  with assms(1) show ?thesis
    by (cases "even (i div 8)") (auto simp: xor_Suc_0_eq elim!: evenE oddE)
qed

lemma stream_covered:
  "even (length Bitstream) \<Longrightarrow> L \<le> 8 * length Bitstream \<Longrightarrow>
   \<forall>i<L. (i div 8) XOR 1 < length (Bitstream :: byte list)"
  using stream_index_bound [of "length Bitstream"] by auto

section \<open>The matcher's loop, one position at a time\<close>

lemma dis_regs_index_nonneg: "(0 \<le> dis_regs_index c) = ((of_char c :: nat) < 128)"
proof (cases "(of_char c :: nat) < 128")
  case True
  then show ?thesis by (simp add: dis_regs_index_def)
next
  case False
  have "\<not> 0 \<le> int (of_char c) - 256"
    using nat_of_char_less_256 [of c] by linarith
  with False show ?thesis
    unfolding dis_regs_index_def by (simp only: if_False simp_thms)
qed

lemma Match_Opcode_loop_step:
  assumes "i < length (significant Bitmask)" "(i div 8) XOR 1 < length Bitstream"
  shows "Match_Opcode_loop Bitmask Bitstream (length (significant Bitmask)) i regs =
     (let c = significant Bitmask ! i in
      if literal c then
        (if stream_bit Bitstream i = (c = CHR ''1'')
         then Match_Opcode_loop Bitmask Bitstream (length (significant Bitmask)) (Suc i) regs
         else Result (0, regs))
      else Match_Opcode_loop Bitmask Bitstream (length (significant Bitmask)) (Suc i)
             (if (of_char c :: nat) < 128
              then regs(c := push_bit 1 (regs c) OR of_bool (stream_bit Bitstream i))
              else regs))"
  using assms
  by (subst Match_Opcode_loop.simps)
     (simp add: Let_def Get_From_Bitmask_nth stream_val literal_def stream_bit_def
        dis_regs_index_nonneg)

lemma Match_Opcode_loop_done:
  "\<not> i < Length \<Longrightarrow> Match_Opcode_loop Bitmask Bitstream Length i regs = Result (1, regs)"
  by (subst Match_Opcode_loop.simps) simp

lemma Match_Opcode_loop_outside:
  "i < Length \<Longrightarrow> \<not> (i div 8) XOR 1 < length Bitstream \<Longrightarrow>
   Match_Opcode_loop Bitmask Bitstream Length i regs = Out_Of_Bounds"
  by (subst Match_Opcode_loop.simps) (simp add: Let_def)

lemma Match_Opcode_loop_result:
  assumes "\<forall>k. i \<le> k \<and> k < length (significant Bitmask) \<longrightarrow> (k div 8) XOR 1 < length Bitstream"
  shows "\<exists>regs'. Match_Opcode_loop Bitmask Bitstream (length (significant Bitmask)) i regs =
           Result ((if \<forall>k. i \<le> k \<and> k < length (significant Bitmask) \<longrightarrow> agrees Bitmask Bitstream k
                    then 1 else 0), regs')"
  using assms
proof (induction "length (significant Bitmask) - i" arbitrary: i regs)
  case 0
  then have "\<not> i < length (significant Bitmask)" by simp
  then show ?case by (simp add: Match_Opcode_loop_done)
next
  case (Suc n)
  then have lt: "i < length (significant Bitmask)" by simp
  from Suc.prems lt have inb: "(i div 8) XOR 1 < length Bitstream" by simp
  have n: "n = length (significant Bitmask) - Suc i" using Suc.hyps(2) by simp
  have rest: "\<forall>k. Suc i \<le> k \<and> k < length (significant Bitmask) \<longrightarrow> (k div 8) XOR 1 < length Bitstream"
    using Suc.prems by simp
  note IH = Suc.hyps(1) [OF n rest]
  show ?case
  proof (cases "literal (significant Bitmask ! i)")
    case True
    show ?thesis
    proof (cases "stream_bit Bitstream i = (significant Bitmask ! i = CHR ''1'')")
      case ok: True
      then have "agrees Bitmask Bitstream i" by (simp add: agrees_def)
      with IH [of regs] True ok lt inb show ?thesis
        by (simp add: Match_Opcode_loop_step all_from_Suc [OF lt])
    next
      case bad: False
      then have "\<not> agrees Bitmask Bitstream i" using True by (simp add: agrees_def)
      with True bad lt inb show ?thesis
        by (simp add: Match_Opcode_loop_step all_from_Suc [OF lt])
    qed
  next
    case False
    then have "agrees Bitmask Bitstream i" by (simp add: agrees_def)
    with IH [of "regs(significant Bitmask ! i :=
        push_bit 1 (regs (significant Bitmask ! i)) OR of_bool (stream_bit Bitstream i))"]
      IH [of regs] False lt inb show ?thesis
      by (simp add: Match_Opcode_loop_step all_from_Suc [OF lt] Let_def)
  qed
qed

lemma Match_Opcode_loop_fields:
  assumes "Match_Opcode_loop Bitmask Bitstream (length (significant Bitmask)) i regs = Result (1, regs')"
  shows "regs' c = (if literal c \<or> \<not> (of_char c :: nat) < 128 then regs c
                    else field_value Bitmask Bitstream c [i..<length (significant Bitmask)] (regs c))"
  using assms
proof (induction "length (significant Bitmask) - i" arbitrary: i regs)
  case 0
  then have "\<not> i < length (significant Bitmask)" by simp
  with "0.prems" show ?case by (simp add: Match_Opcode_loop_done field_value_def)
next
  case (Suc n)
  then have lt: "i < length (significant Bitmask)" by simp
  have n: "n = length (significant Bitmask) - Suc i" using Suc.hyps(2) by simp
  have inb: "(i div 8) XOR 1 < length Bitstream"
    using Suc.prems lt Match_Opcode_loop_outside [of i "length (significant Bitmask)" Bitstream Bitmask regs]
    by auto
  note step = Match_Opcode_loop_step [OF lt inb, of regs]
  have upt: "[i..<length (significant Bitmask)] = i # [Suc i..<length (significant Bitmask)]"
    using lt by (simp add: upt_conv_Cons)
  show ?case
  proof (cases "literal (significant Bitmask ! i)")
    case True
    with Suc.prems step have
      "Match_Opcode_loop Bitmask Bitstream (length (significant Bitmask)) (Suc i) regs = Result (1, regs')"
      by (simp add: Let_def split: if_splits)
    from Suc.hyps(1) [OF n this] True show ?thesis
      by (auto simp: upt field_value_def)
  next
    case False
    let ?c = "significant Bitmask ! i"
    let ?regs = "if (of_char ?c :: nat) < 128
      then regs(?c := push_bit 1 (regs ?c) OR of_bool (stream_bit Bitstream i)) else regs"
    from False Suc.prems step have
      "Match_Opcode_loop Bitmask Bitstream (length (significant Bitmask)) (Suc i) ?regs = Result (1, regs')"
      by (simp add: Let_def)
    from Suc.hyps(1) [OF n this] False show ?thesis
      by (auto simp: upt field_value_def)
  qed
qed

lemma field_value_assemble:
  "field_value Bitmask Bitstream c [0..<length (significant Bitmask)] 0 =
   assemble (field_bits Bitmask Bitstream c)"
  by (simp add: field_value_def assemble_def field_bits_def foldl_map)

lemma Match_Opcode_fields:
  assumes "Match_Opcode Bitmask Bitstream regs = Result (1, regs')"
  shows "regs' c = (if literal c \<or> \<not> (of_char c :: nat) < 128 then 0
                    else assemble (field_bits Bitmask Bitstream c))"
  using Match_Opcode_loop_fields [of Bitmask Bitstream 0 "Clear_Registers regs" regs' c] assms
  by (simp add: Match_Opcode_def Get_Bitmask_Length_significant field_value_assemble
      Clear_Registers_def)

lemma Match_Opcode_clears:
  "Match_Opcode Bitmask Bitstream regs = Match_Opcode Bitmask Bitstream regs2"
  by (simp add: Match_Opcode_def Clear_Registers_def)

lemma Match_Opcode_loop_absent:
  assumes "Match_Opcode_loop Bitmask Bitstream (length (significant Bitmask)) i regs = Result (r, regs')"
    and "c \<notin> set Bitmask"
  shows "regs' c = regs c"
  using assms(1)
proof (induction "length (significant Bitmask) - i" arbitrary: i regs)
  case 0
  then have "\<not> i < length (significant Bitmask)" by simp
  with "0.prems" show ?case by (simp add: Match_Opcode_loop_done)
next
  case (Suc n)
  then have lt: "i < length (significant Bitmask)" by simp
  have n: "n = length (significant Bitmask) - Suc i" using Suc.hyps(2) by simp
  have inb: "(i div 8) XOR 1 < length Bitstream"
    using Suc.prems lt Match_Opcode_loop_outside [of i "length (significant Bitmask)" Bitstream Bitmask regs]
    by auto
  note step = Match_Opcode_loop_step [OF lt inb, of regs]
  from lt have "significant Bitmask ! i \<in> set (significant Bitmask)" by simp
  then have "significant Bitmask ! i \<in> set Bitmask" by (simp add: significant_def)
  with assms(2) have other: "significant Bitmask ! i \<noteq> c" by auto
  show ?case
  proof (cases "literal (significant Bitmask ! i)")
    case True
    show ?thesis
    proof (cases "stream_bit Bitstream i = (significant Bitmask ! i = CHR ''1'')")
      case ok: True
      with True Suc.prems step have
        "Match_Opcode_loop Bitmask Bitstream (length (significant Bitmask)) (Suc i) regs = Result (r, regs')"
        by (simp add: Let_def)
      from Suc.hyps(1) [OF n this] show ?thesis .
    next
      case False
      with True Suc.prems step show ?thesis by (simp add: Let_def)
    qed
  next
    case False
    let ?c = "significant Bitmask ! i"
    let ?regs = "if (of_char ?c :: nat) < 128
      then regs(?c := push_bit 1 (regs ?c) OR of_bool (stream_bit Bitstream i)) else regs"
    from False Suc.prems step have
      "Match_Opcode_loop Bitmask Bitstream (length (significant Bitmask)) (Suc i) ?regs = Result (r, regs')"
      by (simp add: Let_def)
    from Suc.hyps(1) [OF n this] other show ?thesis by simp
  qed
qed

lemma Match_Opcode_absent:
  assumes "Match_Opcode Bitmask Bitstream regs = Result (r, regs')" "c \<notin> set Bitmask"
  shows "regs' c = 0"
  using Match_Opcode_loop_absent [of Bitmask Bitstream 0 "Clear_Registers regs" r regs' c] assms
  by (simp add: Match_Opcode_def Get_Bitmask_Length_significant Clear_Registers_def)

lemma Match_Opcode_loop_inside:
  assumes "Match_Opcode_loop Bitmask Bitstream (length (significant Bitmask)) i regs = Result (1, regs')"
  shows "\<forall>k. i \<le> k \<and> k < length (significant Bitmask) \<longrightarrow> (k div 8) XOR 1 < length Bitstream"
  using assms
proof (induction "length (significant Bitmask) - i" arbitrary: i regs)
  case 0
  then show ?case by simp
next
  case (Suc n)
  then have lt: "i < length (significant Bitmask)" by simp
  have n: "n = length (significant Bitmask) - Suc i" using Suc.hyps(2) by simp
  have inb: "(i div 8) XOR 1 < length Bitstream"
    using Suc.prems lt Match_Opcode_loop_outside [of i "length (significant Bitmask)" Bitstream Bitmask regs]
    by auto
  note step = Match_Opcode_loop_step [OF lt inb, of regs]
  from Suc.prems step obtain regs1 where
    "Match_Opcode_loop Bitmask Bitstream (length (significant Bitmask)) (Suc i) regs1 = Result (1, regs')"
    by (auto simp: Let_def split: if_splits)
  from Suc.hyps(1) [OF n this] inb show ?case
    by (simp add: all_from_Suc [OF lt])
qed

lemma significant_map:
  assumes "\<And>c. (f c = CHR '' '') = (c = CHR '' '')"
  shows "significant (map f Bitmask) = map f (significant Bitmask)"
  by (induction Bitmask) (simp_all add: significant_def assms)

lemma Match_Opcode_renamed:
  assumes m: "Match_Opcode Bitmask Bitstream regs = Result (1, regs')"
    and n: "n \<notin> set Bitmask" "n \<noteq> CHR '' ''" "\<not> literal n" "(of_char n :: nat) < 128"
  shows "\<exists>regs''. Match_Opcode (map (\<lambda>c. if c = CHR ''x'' then n else c) Bitmask) Bitstream regs
            = Result (1, regs'') \<and> regs'' n = regs' (CHR ''x'')"
proof -
  define f where "f = (\<lambda>c. if c = CHR ''x'' then n else c)"
  define L where "L = length (significant Bitmask)"
  have blank: "(f c = CHR '' '') = (c = CHR '' '')" for c
    using n(2) by (simp add: f_def)
  have sig: "significant (map f Bitmask) = map f (significant Bitmask)"
    by (rule significant_map) (rule blank)
  have len: "length (significant (map f Bitmask)) = L" by (simp add: sig L_def)
  have lit: "literal (f c) = literal c" "(f c = CHR ''1'') = (c = CHR ''1'')" for c
    using n(3) by (auto simp: f_def literal_def)
  have mem: "significant Bitmask ! k \<in> set Bitmask" if "k < L" for k
  proof -
    from that have "significant Bitmask ! k \<in> set (significant Bitmask)" by (simp add: L_def)
    then show ?thesis by (simp add: significant_def)
  qed
  have same: "agrees (map f Bitmask) Bitstream k = agrees Bitmask Bitstream k" if "k < L" for k
    using that by (simp add: agrees_def sig lit L_def)
  have pos: "(significant (map f Bitmask) ! k = n) = (significant Bitmask ! k = CHR ''x'')"
    if "k < L" for k
  proof -
    have "significant (map f Bitmask) ! k = f (significant Bitmask ! k)"
      using that by (simp add: sig L_def)
    with mem [OF that] n(1) show ?thesis by (auto simp: f_def)
  qed
  from m have loop: "Match_Opcode_loop Bitmask Bitstream L 0 (Clear_Registers regs) = Result (1, regs')"
    by (simp add: Match_Opcode_def Get_Bitmask_Length_significant L_def)
  from Match_Opcode_loop_inside [OF loop [unfolded L_def]] have
    inside: "\<forall>k. 0 \<le> k \<and> k < L \<longrightarrow> (k div 8) XOR 1 < length Bitstream"
    by (simp add: L_def)
  from Match_Opcode_loop_result [of 0 Bitmask Bitstream "Clear_Registers regs"] inside loop
  have all: "\<forall>k. 0 \<le> k \<and> k < L \<longrightarrow> agrees Bitmask Bitstream k"
    by (auto simp: L_def split: if_splits)
  from Match_Opcode_loop_result [of 0 "map f Bitmask" Bitstream "Clear_Registers regs"] inside
  obtain regs'' where
    "Match_Opcode_loop (map f Bitmask) Bitstream L 0 (Clear_Registers regs) =
       Result ((if \<forall>k. 0 \<le> k \<and> k < L \<longrightarrow> agrees (map f Bitmask) Bitstream k then 1 else 0), regs'')"
    by (auto simp: len)
  with all same have m': "Match_Opcode (map f Bitmask) Bitstream regs = Result (1, regs'')"
    by (simp add: Match_Opcode_def Get_Bitmask_Length_significant len)
  have "filter (\<lambda>k. significant (map f Bitmask) ! k = n) [0..<L] =
        filter (\<lambda>k. significant Bitmask ! k = CHR ''x'') [0..<L]"
    by (rule filter_cong) (simp_all add: pos)
  then have bits: "field_bits (map f Bitmask) Bitstream n = field_bits Bitmask Bitstream (CHR ''x'')"
    by (simp add: field_bits_def len L_def [symmetric])
  have "regs'' n = assemble (field_bits (map f Bitmask) Bitstream n)"
    using Match_Opcode_fields [OF m', of n] n(3,4) by simp
  moreover have "regs' (CHR ''x'') = assemble (field_bits Bitmask Bitstream (CHR ''x''))"
    using Match_Opcode_fields [OF m, of "CHR ''x''"] by (simp add: literal_def)
  ultimately have "regs'' n = regs' (CHR ''x'')" by (simp add: bits)
  with m' show ?thesis by (auto simp: f_def)
qed

lemmas matcher_eval =
  Match_Opcode_def Match_Opcode_loop.simps Get_Bitmask_Length_def Get_From_Bitmask_def
  Clear_Registers_def dis_regs_index_def

section \<open>Facts about specificity, the comparison and the sorts\<close>

lemma fold_count_literal:
  "fold (\<lambda>c Specifity. if c = CHR ''0'' \<or> c = CHR ''1'' then Specifity + 1 else Specifity) xs n
     = n + length (filter literal xs)"
  by (induction xs arbitrary: n) (auto simp: literal_def)

lemma Get_Specifity_count: "Get_Specifity Opcode = length (filter literal Opcode)"
  by (simp add: Get_Specifity_def fold_count_literal)

lemma Comparison_le:
  "(Comparison a b \<le> 0) = (specificity b \<le> specificity a)"
  by (auto simp: Comparison_def specificity_def Let_def)

lemma Comparison_eq:
  "(Comparison a b = 0) = (specificity a = specificity b)"
  by (auto simp: Comparison_def specificity_def Let_def)

lemma mset_insert_by: "mset (insert_by cmp x ys) = add_mset x (mset ys)"
  by (induction ys) auto

lemma set_insert_by: "set (insert_by cmp x ys) = insert x (set ys)"
  by (induction ys) auto

lemma sorted_insert_by:
  "sorted_wrt (\<lambda>a b. Comparison a b \<le> 0) ys \<Longrightarrow>
   sorted_wrt (\<lambda>a b. Comparison a b \<le> 0) (insert_by Comparison x ys)"
proof (induction ys)
  case Nil
  then show ?case by simp
next
  case (Cons y ys)
  then show ?case
    by (auto simp: set_insert_by Comparison_le)
qed

lemma mset_insertion_qsort: "mset (insertion_qsort cmp xs) = mset xs"
  by (induction xs) (simp_all add: insertion_qsort_def mset_insert_by)

lemma sorted_insertion_qsort:
  "sorted_wrt (\<lambda>a b. Comparison a b \<le> 0) (insertion_qsort Comparison xs)"
  by (induction xs) (simp_all add: insertion_qsort_def sorted_insert_by)

lemma insertion_qsort_contract: "qsort_contract insertion_qsort"
  by (simp add: qsort_contract_def mset_insertion_qsort sorted_insertion_qsort)

lemma reversing_qsort_contract: "qsort_contract reversing_qsort"
  by (simp add: qsort_contract_def reversing_qsort_def mset_insertion_qsort
      sorted_insertion_qsort)

lemma qsort_contract_sorted:
  "qsort_contract q \<Longrightarrow>
   sorted_wrt (\<lambda>a b. specificity b \<le> specificity a) (q Comparison xs)"
  by (simp add: qsort_contract_def Comparison_le)

lemma qsort_contract_mset: "qsort_contract q \<Longrightarrow> mset (q Comparison xs) = mset xs"
  by (simp add: qsort_contract_def)

lemma qsort_contract_set: "qsort_contract q \<Longrightarrow> set (q Comparison xs) = set xs"
  by (metis qsort_contract_def set_mset_mset)

section \<open>Facts about the registry that \<open>disasm\<close> builds\<close>

lemma fold_Register_Opcode:
  "dis_op (fold (\<lambda>(cb, s, m). Register_Opcode cb s m) rs cx) =
   dis_op cx @ map (\<lambda>(cb, s, m). \<lparr>Opcode_String = s, mnemo = m, Callback = cb\<rparr>) rs"
  by (induction rs arbitrary: cx) (auto simp: Register_Opcode_def)

lemma patterns_register_all:
  "map Opcode_String (dis_op (register_all cx)) = map (\<lambda>(cb, s, m). s) registrations"
  unfolding register_all_def fold_Register_Opcode by (simp add: split_def comp_def)

lemma patterns_Supersede_Opcode_loop:
  "Supersede_Opcode_loop cb m ops = Some ops' \<Longrightarrow>
   map Opcode_String ops' = map Opcode_String ops"
  by (induction ops arbitrary: ops') (auto split: if_splits)

lemma patterns_Supersede_Opcode:
  "map Opcode_String (dis_op (Supersede_Opcode cb m cx)) = map Opcode_String (dis_op cx)"
  by (auto simp: Supersede_Opcode_def patterns_Supersede_Opcode_loop split: option.splits)

lemma patterns_fold_Supersede_Opcode:
  "map Opcode_String (dis_op (fold (\<lambda>(cb, m). Supersede_Opcode cb m) ss cx)) =
   map Opcode_String (dis_op cx)"
  by (induction ss arbitrary: cx) (auto simp: patterns_Supersede_Opcode)

lemma patterns_build_registry:
  assumes "qsort_contract (qsort ext)"
  shows "set (map Opcode_String (dis_op (build_registry ext cx))) =
         set (map (\<lambda>(cb, s, m). s) registrations)"
proof -
  define cx2 where
    "cx2 = (if Show_PseudoCode (dis_opts (register_all cx)) then supersede_all (register_all cx)
            else register_all cx)"
  have "map Opcode_String (dis_op cx2) = map (\<lambda>(cb, s, m). s) registrations"
    by (simp add: cx2_def supersede_all_def patterns_fold_Supersede_Opcode patterns_register_all)
  moreover have "dis_op (build_registry ext cx) = qsort ext Comparison (dis_op cx2)"
    by (simp add: build_registry_def cx2_def Let_def)
  ultimately show ?thesis
    using qsort_contract_set [OF assms, of "dis_op cx2"] by (metis list.set_map)
qed

lemma registered_patterns_specificity:
  "list_all (\<lambda>(cb, s, m). if all_literal s then Get_Specifity s = 16 else Get_Specifity s < 16)
     registrations"
  by (simp add: registrations_def all_literal_def significant_def literal_def Get_Specifity_def)

lemma registry_entry_specificity:
  assumes "qsort_contract (qsort ext)" "entry \<in> set (dis_op (build_registry ext cx))"
  shows "if all_literal (Opcode_String entry) then specificity entry = 16
         else specificity entry < 16"
proof -
  from assms(2) have "Opcode_String entry \<in> set (map Opcode_String (dis_op (build_registry ext cx)))"
    by simp
  then have "Opcode_String entry \<in> set (map (\<lambda>(cb, s, m). s) registrations)"
    by (simp only: patterns_build_registry [OF assms(1)])
  then obtain cb m where "(cb, Opcode_String entry, m) \<in> set registrations"
    by auto
  with registered_patterns_specificity show ?thesis
    by (auto simp: list_all_iff specificity_def)
qed

section \<open>Facts about the resolver\<close>

lemma covered_iff:
  "covered entry Bitstream =
   (\<forall>i < Get_Bitmask_Length (Opcode_String entry). (i div 8) XOR 1 < length Bitstream)"
  by (auto simp: covered_def list_all_iff)

lemma Match_Opcode_covered:
  assumes "covered entry Bitstream"
  shows "\<exists>regs'. Match_Opcode (Opcode_String entry) Bitstream regs =
           Result ((if accepts entry Bitstream then 1 else 0), regs')"
proof -
  have inb: "\<forall>k. 0 \<le> k \<and> k < length (significant (Opcode_String entry)) \<longrightarrow>
               (k div 8) XOR 1 < length Bitstream"
    using assms by (simp add: covered_iff Get_Bitmask_Length_significant)
  from Match_Opcode_loop_result [OF inb, of "\<lambda>c. 0"]
  obtain r regs0 where
    m0: "Match_Opcode (Opcode_String entry) Bitstream (\<lambda>c. 0) = Result (r, regs0)" and
    r: "r = 1 \<or> r = 0"
    by (auto simp: Match_Opcode_def Get_Bitmask_Length_significant Clear_Registers_def
        split: if_splits)
  have "Match_Opcode (Opcode_String entry) Bitstream regs = Result (r, regs0)"
    using m0 Match_Opcode_clears [of "Opcode_String entry" Bitstream regs "\<lambda>c. 0"] by simp
  moreover have "accepts entry Bitstream = (r = 1)"
    using m0 by (simp add: accepts_def)
  ultimately show ?thesis using r by auto
qed

lemma Get_Next_Opcode_loop_first:
  assumes "\<forall>entry \<in> set ops. covered entry Bitstream"
  shows "\<exists>r regs'. Get_Next_Opcode_loop ops i Bitstream regs = Result (r, regs') \<and>
           ((r = - 1 \<and> (\<forall>entry \<in> set ops. \<not> accepts entry Bitstream)) \<or>
            (\<exists>k < length ops. r = int (i + k) \<and> accepts (ops ! k) Bitstream \<and>
               (\<forall>j < k. \<not> accepts (ops ! j) Bitstream)))"
  using assms
proof (induction ops arbitrary: i regs)
  case Nil
  then show ?case by simp
next
  case (Cons entry rest)
  from Cons.prems have cov: "covered entry Bitstream" by simp
  from Match_Opcode_covered [OF cov, of regs] obtain regs1 where
    m: "Match_Opcode (Opcode_String entry) Bitstream regs =
          Result ((if accepts entry Bitstream then 1 else 0), regs1)"
    by blast
  show ?case
  proof (cases "accepts entry Bitstream")
    case True
    with m have "Get_Next_Opcode_loop (entry # rest) i Bitstream regs = Result (int i, regs1)"
      by simp
    moreover have "\<exists>k < length (entry # rest). int i = int (i + k) \<and>
        accepts ((entry # rest) ! k) Bitstream \<and> (\<forall>j < k. \<not> accepts ((entry # rest) ! j) Bitstream)"
      using True by (intro exI [of _ 0]) simp
    ultimately show ?thesis by blast
  next
    case False
    with m have step: "Get_Next_Opcode_loop (entry # rest) i Bitstream regs =
        Get_Next_Opcode_loop rest (i + 1) Bitstream regs1"
      by simp
    from Cons.prems have "\<forall>entry \<in> set rest. covered entry Bitstream" by simp
    from Cons.IH [OF this, of "i + 1" regs1] obtain r regs' where
      res: "Get_Next_Opcode_loop rest (i + 1) Bitstream regs1 = Result (r, regs')" and
      alt: "(r = - 1 \<and> (\<forall>entry \<in> set rest. \<not> accepts entry Bitstream)) \<or>
            (\<exists>k < length rest. r = int (i + 1 + k) \<and> accepts (rest ! k) Bitstream \<and>
               (\<forall>j < k. \<not> accepts (rest ! j) Bitstream))"
      by blast
    from alt show ?thesis
    proof
      assume "r = - 1 \<and> (\<forall>entry \<in> set rest. \<not> accepts entry Bitstream)"
      with False step res show ?thesis by auto
    next
      assume "\<exists>k < length rest. r = int (i + 1 + k) \<and> accepts (rest ! k) Bitstream \<and>
               (\<forall>j < k. \<not> accepts (rest ! j) Bitstream)"
      then obtain k where k: "k < length rest" "r = int (i + 1 + k)" "accepts (rest ! k) Bitstream"
        "\<forall>j < k. \<not> accepts (rest ! j) Bitstream"
        by blast
      have "\<forall>j < Suc k. \<not> accepts ((entry # rest) ! j) Bitstream"
        using False k(4) by (auto simp: nth_Cons split: nat.splits)
      with k have "Suc k < length (entry # rest) \<and> r = int (i + Suc k) \<and>
          accepts ((entry # rest) ! Suc k) Bitstream \<and>
          (\<forall>j < Suc k. \<not> accepts ((entry # rest) ! j) Bitstream)"
        by simp
      then have "\<exists>k' < length (entry # rest). r = int (i + k') \<and>
          accepts ((entry # rest) ! k') Bitstream \<and>
          (\<forall>j < k'. \<not> accepts ((entry # rest) ! j) Bitstream)"
        by blast
      with step res show ?thesis by simp
    qed
  qed
qed

section \<open>Facts about the plain comparator\<close>

lemma all_less_list_all: "(\<forall>k<n. P k) = list_all P [0..<n]"
  by (auto simp: list_all_iff)

lemma first_invalid_less:
  "(\<exists>c \<in> set Bitmask. \<not> mask_char c) = (first_invalid Bitmask < length Bitmask)"
  unfolding first_invalid_def by (induction Bitmask) auto

lemma first_invalid_char:
  "first_invalid Bitmask < length Bitmask \<Longrightarrow> \<not> mask_char (Bitmask ! first_invalid Bitmask)"
  unfolding first_invalid_def by (rule nth_length_takeWhile)

lemma before_first_invalid:
  "k < first_invalid Bitmask \<Longrightarrow> mask_char (Bitmask ! k)"
  unfolding first_invalid_def
  by (metis nth_mem set_takeWhileD takeWhile_nth)

lemma Compare_Opcode_loop_invalid:
  assumes "first_invalid Bitmask < length Bitmask" "length Bitmask \<le> 8 * length Bitstream"
    "i \<le> first_invalid Bitmask"
  shows "Compare_Opcode_loop Bitstream Bitmask i =
           Result (0, if \<forall>k. i \<le> k \<and> k < first_invalid Bitmask \<longrightarrow> compare_agrees Bitstream Bitmask k
                      then [''Invalid Bitmask!''] else [])"
  using assms(3)
proof (induction "first_invalid Bitmask - i" arbitrary: i)
  case 0
  then have i: "i = first_invalid Bitmask" by simp
  with assms(1) first_invalid_char [OF assms(1)] show ?case
    by (subst Compare_Opcode_loop.simps) (auto simp: mask_char_def)
next
  case (Suc n)
  then have lt: "i < first_invalid Bitmask" by simp
  with assms(1) have len: "i < length Bitmask" by simp
  with assms(2) have inb: "i div 8 < length Bitstream" by auto
  from before_first_invalid [OF lt] have ok: "mask_char (Bitmask ! i)" .
  have n: "n = first_invalid Bitmask - Suc i" using Suc.hyps(2) by simp
  from lt have "Suc i \<le> first_invalid Bitmask" by simp
  note IH = Suc.hyps(1) [OF n this]
  from ok len inb IH show ?case
    by (subst Compare_Opcode_loop.simps)
       (auto simp: mask_char_def Let_def stream_val all_from_Suc [OF lt] compare_agrees_def)
qed

section \<open>Facts about the driver\<close>

lemma Match_Opcode_reads_first_word:
  assumes "Match_Opcode Bitmask Bitstream regs = Result res" "0 < Get_Bitmask_Length Bitmask"
  shows "1 < length Bitstream"
proof (rule ccontr)
  assume "\<not> 1 < length Bitstream"
  then have "\<not> (0 div 8) XOR 1 < length Bitstream" by simp
  from Match_Opcode_loop_outside [OF assms(2) this] assms(1) show False
    by (simp add: Match_Opcode_def)
qed

lemma Get_Next_Opcode_reads_first_word:
  assumes "Get_Next_Opcode ops Bitstream regs = Result res" "ops \<noteq> []"
    "0 < Get_Bitmask_Length (Opcode_String (hd ops))"
  shows "1 < length Bitstream"
proof -
  from assms(2) obtain entry rest where ops: "ops = entry # rest" by (cases ops) auto
  with assms(1) obtain res' where "Match_Opcode (Opcode_String entry) Bitstream regs = Result res'"
    by (auto simp: Get_Next_Opcode_def split: outcome.splits)
  from Match_Opcode_reads_first_word [OF this] assms(3) ops show ?thesis by simp
qed

lemma emit_fields [simp]:
  "dis_op (emit items cx) = dis_op cx" "dis_regs (emit items cx) = dis_regs cx"
  "dis_opts (emit items cx) = dis_opts cx" "collab (emit items cx) = collab cx"
  "stdout (emit items cx) = stdout cx @ items" "stderr (emit items cx) = stderr cx"
  "dis_code (emit items cx) = dis_code cx" "dis_comment (emit items cx) = dis_comment cx"
  "dis_after_code (emit items cx) = dis_after_code cx"
  by (simp_all add: emit_def)

lemma Register_Opcode_fields [simp]:
  "dis_opts (Register_Opcode cb s m cx) = dis_opts cx"
  "dis_regs (Register_Opcode cb s m cx) = dis_regs cx"
  "collab (Register_Opcode cb s m cx) = collab cx"
  "stdout (Register_Opcode cb s m cx) = stdout cx"
  by (simp_all add: Register_Opcode_def)

lemma Supersede_Opcode_fields [simp]:
  "dis_opts (Supersede_Opcode cb m cx) = dis_opts cx"
  "dis_regs (Supersede_Opcode cb m cx) = dis_regs cx"
  "collab (Supersede_Opcode cb m cx) = collab cx"
  "stdout (Supersede_Opcode cb m cx) = stdout cx"
  by (simp_all add: Supersede_Opcode_def split: option.splits)

lemma fold_Register_Opcode_fields [simp]:
  "dis_opts (fold (\<lambda>(cb, s, m). Register_Opcode cb s m) rs cx) = dis_opts cx"
  "dis_regs (fold (\<lambda>(cb, s, m). Register_Opcode cb s m) rs cx) = dis_regs cx"
  "collab (fold (\<lambda>(cb, s, m). Register_Opcode cb s m) rs cx) = collab cx"
  "stdout (fold (\<lambda>(cb, s, m). Register_Opcode cb s m) rs cx) = stdout cx"
  by (induction rs arbitrary: cx; simp add: split_def)+

lemma fold_Supersede_Opcode_fields [simp]:
  "dis_opts (fold (\<lambda>(cb, m). Supersede_Opcode cb m) ss cx) = dis_opts cx"
  "dis_regs (fold (\<lambda>(cb, m). Supersede_Opcode cb m) ss cx) = dis_regs cx"
  "collab (fold (\<lambda>(cb, m). Supersede_Opcode cb m) ss cx) = collab cx"
  "stdout (fold (\<lambda>(cb, m). Supersede_Opcode cb m) ss cx) = stdout cx"
  by (induction ss arbitrary: cx; simp add: split_def)+

lemma build_registry_fields [simp]:
  "dis_opts (build_registry ext cx) = dis_opts cx"
  "dis_regs (build_registry ext cx) = dis_regs cx"
  "collab (build_registry ext cx) = collab cx"
  "stdout (build_registry ext cx) = stdout cx"
  by (simp_all add: build_registry_def Let_def register_all_def supersede_all_def)

lemma Get_Next_Opcode_loop_outside:
  assumes "\<forall>entry \<in> set ops. \<not> accepts entry Bitstream"
    and "\<exists>entry \<in> set ops. Match_Opcode (Opcode_String entry) Bitstream (\<lambda>c. 0) = Out_Of_Bounds"
  shows "Get_Next_Opcode_loop ops i Bitstream regs = Out_Of_Bounds"
  using assms
proof (induction ops arbitrary: i regs)
  case Nil
  then show ?case by simp
next
  case (Cons entry rest)
  have same: "Match_Opcode (Opcode_String entry) Bitstream regs =
              Match_Opcode (Opcode_String entry) Bitstream (\<lambda>c. 0)"
    by (rule Match_Opcode_clears)
  show ?case
  proof (cases "Match_Opcode (Opcode_String entry) Bitstream (\<lambda>c. 0)")
    case Out_Of_Bounds
    with same show ?thesis by simp
  next
    case (Result res)
    obtain r regs' where res: "res = (r, regs')" by (cases res)
    from Cons.prems(1) Result res have "r \<noteq> 1" by (simp add: accepts_def)
    moreover from Cons.prems Result have
      "\<forall>entry \<in> set rest. \<not> accepts entry Bitstream"
      "\<exists>entry \<in> set rest. Match_Opcode (Opcode_String entry) Bitstream (\<lambda>c. 0) = Out_Of_Bounds"
      by auto
    ultimately show ?thesis
      using Cons.IH [of "i + 1" regs'] same Result res by simp
  qed
qed

lemma no_registered_pattern_accepts_call_word:
  "list_all (\<lambda>(cb, s, m).
      case Match_Opcode s [0x0E, 0x94] (\<lambda>c. 0) of Out_Of_Bounds \<Rightarrow> True | Result (r, regs) \<Rightarrow> r \<noteq> 1)
    registrations"
  by (simp add: registrations_def matcher_eval)

lemma call_pattern_reads_outside:
  "Match_Opcode ''1001 010k  kkkk 111k    kkkk kkkk  kkkk kkkk'' [0x0E, 0x94] (\<lambda>c. 0) = Out_Of_Bounds"
  by (simp add: matcher_eval)

lemma registered_pattern_lengths:
  "list_all (\<lambda>(cb, s, m). 8 \<le> Get_Bitmask_Length s \<and> Get_Bitmask_Length s \<le> 8 * 4) registrations"
  by (simp add: registrations_def Get_Bitmask_Length_def)

lemma covered_drop:
  assumes "even M" "Get_Bitmask_Length (Opcode_String entry) \<le> 8 * M" "Pos + M \<le> length Bitstream"
  shows "covered entry (drop Pos Bitstream)"
proof -
  have "(i div 8) XOR 1 < length (drop Pos Bitstream)"
    if "i < Get_Bitmask_Length (Opcode_String entry)" for i
  proof -
    from that assms(2) have "i < 8 * M" by simp
    from stream_index_bound [OF assms(1) this] assms(3) show ?thesis by simp
  qed
  then show ?thesis by (simp add: covered_iff)
qed

lemma run_callback_dis_op [simp]: "dis_op (run_callback ext entry Bitstream Pos cx) = dis_op cx"
  by (simp add: run_callback_def split: prod.splits)

lemma Disassemble_print_inside:
  "Pos + Get_Bitmask_Length (Opcode_String entry) div 8 \<le> length Bitstream \<Longrightarrow>
   Disassemble_print ext entry Bitstream Pos cx \<noteq> Out_Of_Bounds"
  by (simp add: Disassemble_print_def Let_def split: prod.splits)

lemma Disassemble_print_dis_op:
  "Disassemble_print ext entry Bitstream Pos cx = Result cx' \<Longrightarrow> dis_op cx' = dis_op cx"
  by (auto simp: Disassemble_print_def Let_def split: prod.splits if_splits)

lemma Disassemble_pass2_step_progress:
  assumes "even M" "2 \<le> M" "registry_fits (dis_op cx) M" "Pos + M \<le> length Bitstream"
  shows "\<exists>Pos' cx'. Disassemble_pass2_step ext Bitstream Pos cx = Result (Pos', cx') \<and>
           Pos < Pos' \<and> dis_op cx' = dis_op cx"
proof -
  obtain Added lines x where
    tag: "Tagfile_Process_Data ext Bitstream Pos (collab cx) = (Added, lines, x)"
    by (cases "Tagfile_Process_Data ext Bitstream Pos (collab cx)")
  define cx0 where "cx0 = emit (map Text lines) (cx\<lparr>collab := x\<rparr>)"
  have ops0: "dis_op cx0 = dis_op cx" by (simp add: cx0_def)
  show ?thesis
  proof (cases "Added = 0")
    case False
    with tag show ?thesis by (simp add: Disassemble_pass2_step_def Let_def)
  next
    case True
    have fits: "\<forall>entry \<in> set (dis_op cx).
        8 \<le> Get_Bitmask_Length (Opcode_String entry) \<and>
        Get_Bitmask_Length (Opcode_String entry) \<le> 8 * M"
      using assms(3) by (simp add: registry_fits_def list_all_iff)
    then have "\<forall>entry \<in> set (dis_op cx). covered entry (drop Pos Bitstream)"
      using covered_drop [OF assms(1) _ assms(4)] by blast
    from Get_Next_Opcode_loop_first [OF this, of 0 "dis_regs cx0"] obtain r regs' where
      res: "Get_Next_Opcode (dis_op cx0) (drop Pos Bitstream) (dis_regs cx0) = Result (r, regs')" and
      alt: "r = - 1 \<or> (\<exists>k < length (dis_op cx). r = int k)"
      by (auto simp: Get_Next_Opcode_def ops0)
    show ?thesis
    proof (cases "r = - 1")
      case neg: True
      from assms(2,4) have "Pos + 1 < length Bitstream" by simp
      with tag True res neg show ?thesis
        by (simp add: Disassemble_pass2_step_def Let_def cx0_def)
    next
      case pos: False
      with alt obtain k where k: "k < length (dis_op cx)" "r = int k" by blast
      define entry where "entry = dis_op cx ! k"
      from k(1) have "entry \<in> set (dis_op cx)" by (simp add: entry_def)
      with fits have len: "8 \<le> Get_Bitmask_Length (Opcode_String entry)"
        "Get_Bitmask_Length (Opcode_String entry) \<le> 8 * M"
        by auto
      then have n: "0 < Get_Bitmask_Length (Opcode_String entry) div 8"
        "Get_Bitmask_Length (Opcode_String entry) div 8 \<le> M"
        by (auto simp: div_greater_zero_iff)
      from n(2) assms(4) have
        inside: "Pos + Get_Bitmask_Length (Opcode_String entry) div 8 \<le> length Bitstream"
        by simp
      have res': "Get_Next_Opcode (dis_op cx) (drop Pos Bitstream) (dis_regs cx) = Result (int k, regs')"
        using res k(2) by (simp add: cx0_def)
      from tag True res' n(1) Disassemble_print_inside [OF inside, of ext] show ?thesis
        by (auto simp: Disassemble_pass2_step_def Let_def entry_def
            split: outcome.splits dest!: Disassemble_print_dis_op)
    qed
  qed
qed

lemma Disassemble_pass1_step_progress:
  assumes "even M" "2 \<le> M" "registry_fits (dis_op cx) M" "Pos + M \<le> length Bitstream"
  shows "\<exists>Pos' cx'. Disassemble_pass1_step ext Bitstream Pos cx = Result (Pos', cx') \<and>
           Pos < Pos' \<and> dis_op cx' = dis_op cx"
proof -
  have fits: "\<forall>entry \<in> set (dis_op cx).
      8 \<le> Get_Bitmask_Length (Opcode_String entry) \<and>
      Get_Bitmask_Length (Opcode_String entry) \<le> 8 * M"
    using assms(3) by (simp add: registry_fits_def list_all_iff)
  then have "\<forall>entry \<in> set (dis_op cx). covered entry (drop Pos Bitstream)"
    using covered_drop [OF assms(1) _ assms(4)] by blast
  from Get_Next_Opcode_loop_first [OF this, of 0 "dis_regs cx"] obtain r regs' where
    res: "Get_Next_Opcode (dis_op cx) (drop Pos Bitstream) (dis_regs cx) = Result (r, regs')" and
    alt: "r = - 1 \<or> (\<exists>k < length (dis_op cx). r = int k)"
    by (auto simp: Get_Next_Opcode_def)
  show ?thesis
  proof (cases "r = - 1")
    case True
    with res show ?thesis by (simp add: Disassemble_pass1_step_def Let_def)
  next
    case False
    with alt obtain k where k: "k < length (dis_op cx)" "r = int k" by blast
    then have "dis_op cx ! k \<in> set (dis_op cx)" by simp
    with fits have "8 \<le> Get_Bitmask_Length (Opcode_String (dis_op cx ! k))" by blast
    then have "0 < Get_Bitmask_Length (Opcode_String (dis_op cx ! k)) div 8"
      by (simp add: div_greater_zero_iff)
    with res k show ?thesis by (simp add: Disassemble_pass1_step_def Let_def)
  qed
qed

lemma Disassemble_pass1_returns:
  assumes "even M" "2 \<le> M" "nat Read + M \<le> length Bitstream + 1"
  shows "registry_fits (dis_op cx) M \<Longrightarrow>
         \<exists>cx'. Disassemble_pass1 ext Bitstream Read Pos cx = Some (Result cx') \<and>
               dis_op cx' = dis_op cx"
proof (induction "nat (Read - int Pos)" arbitrary: Pos cx rule: less_induct)
  case less
  show ?case
  proof (cases "int Pos < Read")
    case False
    then show ?thesis by (subst Disassemble_pass1.simps) simp
  next
    case True
    with assms(3) have "Pos + M \<le> length Bitstream" by linarith
    from Disassemble_pass1_step_progress [OF assms(1,2) less.prems this, of ext]
    obtain Pos' cx1 where
      step: "Disassemble_pass1_step ext Bitstream Pos cx = Result (Pos', cx1)" and
      adv: "Pos < Pos'" and ops: "dis_op cx1 = dis_op cx"
      by blast
    from adv True have "nat (Read - int Pos') < nat (Read - int Pos)" by linarith
    moreover from less.prems ops have "registry_fits (dis_op cx1) M" by simp
    ultimately obtain cx' where
      "Disassemble_pass1 ext Bitstream Read Pos' cx1 = Some (Result cx')" "dis_op cx' = dis_op cx1"
      using less.hyps by blast
    with True step ops show ?thesis
      by (subst Disassemble_pass1.simps) simp
  qed
qed

lemma Disassemble_pass2_returns:
  assumes "even M" "2 \<le> M" "nat Read + M \<le> length Bitstream + 1"
  shows "registry_fits (dis_op cx) M \<Longrightarrow>
         \<exists>cx'. Disassemble_pass2 ext Bitstream Read Pos cx = Some (Result cx') \<and>
               dis_op cx' = dis_op cx"
proof (induction "nat (Read - int Pos)" arbitrary: Pos cx rule: less_induct)
  case less
  show ?case
  proof (cases "int Pos < Read")
    case False
    then show ?thesis by (subst Disassemble_pass2.simps) simp
  next
    case True
    with assms(3) have "Pos + M \<le> length Bitstream" by linarith
    from Disassemble_pass2_step_progress [OF assms(1,2) less.prems this, of ext]
    obtain Pos' cx1 where
      step: "Disassemble_pass2_step ext Bitstream Pos cx = Result (Pos', cx1)" and
      adv: "Pos < Pos'" and ops: "dis_op cx1 = dis_op cx"
      by blast
    from adv True have "nat (Read - int Pos') < nat (Read - int Pos)" by linarith
    moreover from less.prems ops have "registry_fits (dis_op cx1) M" by simp
    ultimately obtain cx' where
      "Disassemble_pass2 ext Bitstream Read Pos' cx1 = Some (Result cx')" "dis_op cx' = dis_op cx1"
      using less.hyps by blast
    with True step ops show ?thesis
      by (subst Disassemble_pass2.simps) simp
  qed
qed

lemma set_Pass_dis_op [simp]: "dis_op (set_Pass n cx) = dis_op cx"
  by (simp add: set_Pass_def)

lemma and_then_Result: "r = Some (Result v) \<Longrightarrow> and_then r f = f v"
  by (simp add: and_then_def)

lemma Disassemble_returns:
  assumes "even M" "2 \<le> M" "nat Read + M \<le> length Bitstream + 1"
    "registry_fits (dis_op cx) M"
  shows "\<exists>cx'. Disassemble (ext :: 'x externals) Bitstream Read addr cx = Some (Result cx')"
proof -
  define cx0 where "cx0 = set_Pass 1 cx"
  define first where
    "first = (if Process_Labels (dis_opts cx0) \<or>
                 (\<not> Show_PseudoCode (dis_opts cx0) \<and> CodeStyle (dis_opts cx0) = CODESTYLE_AVRGCC)
              then and_then (Disassemble_pass1 ext Bitstream Read 0 cx0)
                     (\<lambda>cx1. Some (Result
                        (set_Pass 2 (cx1\<lparr>collab := Enumerate_Labels ext (collab cx1)\<rparr>))))
              else Some (Result cx0))"
  define third :: "'x libavrdude_context \<Rightarrow> 'x libavrdude_context" where
    "third = (\<lambda>cx2. if CodeStyle (dis_opts cx0) = CODESTYLE_AVRGCC then
              (case Emit_Used_IO_Registers ext (collab cx2) of
                 (lines, x) \<Rightarrow> emit (map Text lines) (cx2\<lparr>collab := x\<rparr>))
            else cx2)"
  define last :: "'x libavrdude_context \<Rightarrow> 'x libavrdude_context outcome option" where
    "last = (\<lambda>cx4. Some (Result
               (if Show_PseudoCode (dis_opts cx0) then emit [Closing_Brace] cx4 else cx4)))"
  have shape: "Disassemble ext Bitstream Read addr cx =
      and_then first (\<lambda>cx2. and_then (Disassemble_pass2 ext Bitstream Read 0 (third cx2)) last)"
    unfolding Disassemble_def Let_def cx0_def first_def third_def last_def by (rule refl)
  have fits0: "registry_fits (dis_op cx0) M" using assms(4) by (simp add: cx0_def)
  from Disassemble_pass1_returns [OF assms(1-3) fits0, of ext 0] obtain cx1 where
    "Disassemble_pass1 ext Bitstream Read 0 cx0 = Some (Result cx1)" "dis_op cx1 = dis_op cx0"
    by blast
  with fits0 have "\<exists>cx2. first = Some (Result cx2) \<and> registry_fits (dis_op cx2) M"
    by (simp add: first_def and_then_def)
  then obtain cx2 where cx2: "first = Some (Result cx2)" "registry_fits (dis_op cx2) M"
    by blast
  have "registry_fits (dis_op (third cx2)) M"
    using cx2(2) by (simp add: third_def split: prod.splits)
  from Disassemble_pass2_returns [OF assms(1-3) this, of ext 0] obtain cx4 where
    cx4: "Disassemble_pass2 ext Bitstream Read 0 (third cx2) = Some (Result cx4)"
    by blast
  have "Disassemble ext Bitstream Read addr cx = last cx4"
    by (simp only: shape and_then_Result [OF cx2(1)] and_then_Result [OF cx4])
  then show ?thesis by (simp add: last_def)
qed

lemma table_broken_iff:
  "table_broken ext = (\<exists>i < length (avr_opcodes ext). avr_opcodes ext ! i \<noteq> i)"
  by (auto simp: table_broken_def list_ex_iff)

lemma registry_fits_build_registry:
  assumes "qsort_contract (qsort ext)"
  shows "registry_fits (dis_op (build_registry ext cx)) 4"
proof -
  have "8 \<le> Get_Bitmask_Length (Opcode_String entry) \<and>
        Get_Bitmask_Length (Opcode_String entry) \<le> 8 * 4"
    if "entry \<in> set (dis_op (build_registry ext cx))" for entry
  proof -
    from that have "Opcode_String entry \<in> set (map Opcode_String (dis_op (build_registry ext cx)))"
      by simp
    then have "Opcode_String entry \<in> set (map (\<lambda>(cb, s, m). s) registrations)"
      by (simp only: patterns_build_registry [OF assms])
    then obtain cb m where "(cb, Opcode_String entry, m) \<in> set registrations"
      by auto
    with registered_pattern_lengths show ?thesis
      by (auto simp: list_all_iff)
  qed
  then show ?thesis by (simp add: registry_fits_def list_all_iff)
qed

lemma length_build_registry:
  assumes "qsort_contract (qsort ext)"
  shows "length (dis_op (build_registry ext cx)) = length registrations"
proof -
  define cx2 where
    "cx2 = (if Show_PseudoCode (dis_opts (register_all cx)) then supersede_all (register_all cx)
            else register_all cx)"
  have "map Opcode_String (dis_op cx2) = map (\<lambda>(cb, s, m). s) registrations"
    by (simp add: cx2_def supersede_all_def patterns_fold_Supersede_Opcode patterns_register_all)
  then have "length (dis_op cx2) = length registrations"
    by (metis length_map)
  moreover have "dis_op (build_registry ext cx) = qsort ext Comparison (dis_op cx2)"
    by (simp add: build_registry_def cx2_def Let_def)
  moreover have "length (qsort ext Comparison (dis_op cx2)) = length (dis_op cx2)"
    using qsort_contract_mset [OF assms, of "dis_op cx2"] by (metis size_mset)
  ultimately show ?thesis by simp
qed

lemma length_registrations: "length registrations = 131"
  by (simp add: registrations_def)

lemma disasm_returns:
  assumes "qsort_contract (qsort ext)" "nat Read + 3 \<le> length Bitstream"
  shows "\<exists>r cx'. disasm ext Bitstream Read addr cx = Some (Result (r, cx'))"
proof -
  obtain ok x where tag: "read_tagfile ext cx = (ok, x)" by (cases "read_tagfile ext cx")
  have "even (4 :: nat)" "2 \<le> (4 :: nat)" "nat Read + 4 \<le> length Bitstream + 1"
    using assms(2) by simp_all
  from Disassemble_returns [OF this registry_fits_build_registry [OF assms(1)], of ext addr "cx\<lparr>collab := x\<rparr>"]
  obtain cx4 where "Disassemble ext Bitstream Read addr (build_registry ext (cx\<lparr>collab := x\<rparr>))
      = Some (Result cx4)"
    by blast
  with tag show ?thesis
    by (simp add: disasm_def Let_def and_then_def)
qed

section \<open>The matcher: literal bits decide the result\<close>

text \<open>
  C1. The positions of a pattern are its significant (non-blank) characters, in order.
  For every pattern and every byte stream long enough to hold the stream byte of every
  position (in particular for every pattern whose significant length is a multiple of 8),
  \<open>Match_Opcode\<close> returns, and it returns 1 exactly when every position \<open>i\<close> holding a
  \<open>0\<close> or a \<open>1\<close> agrees with bit \<open>7 - i mod 8\<close> of stream byte \<open>(i div 8) XOR 1\<close>. The
  right-hand side does not mention the positions holding any other character, so field
  and wildcard positions never affect the result.
\<close>

theorem Match_Opcode_literals:
  assumes "\<forall>i < length (significant Bitmask). (i div 8) XOR 1 < length Bitstream"
  shows "\<exists>r regs'. Match_Opcode Bitmask Bitstream regs = Result (r, regs') \<and>
           (r = 1 \<or> r = 0) \<and>
           ((r = 1) =
            (\<forall>i < length (significant Bitmask).
               literal (significant Bitmask ! i) \<longrightarrow>
               bit (Bitstream ! ((i div 8) XOR 1)) (7 - i mod 8)
                 = (significant Bitmask ! i = CHR ''1'')))"
proof -
  have "\<forall>k. 0 \<le> k \<and> k < length (significant Bitmask) \<longrightarrow> (k div 8) XOR 1 < length Bitstream"
    using assms by simp
  from Match_Opcode_loop_result [OF this, of "Clear_Registers regs"]
  show ?thesis
    by (auto simp: Match_Opcode_def Get_Bitmask_Length_significant agrees_def stream_bit_def)
qed

theorem Match_Opcode_literals_witness:
  "(\<exists>regs'. Match_Opcode ''0001 11rd dddd rrrr'' [0xD1, 0x1C] (\<lambda>c. 0) = Result (1, regs') \<and>
     (\<forall>i < length (significant ''0001 11rd dddd rrrr'').
        literal (significant ''0001 11rd dddd rrrr'' ! i) \<longrightarrow>
        bit ([0xD1, 0x1C :: byte] ! ((i div 8) XOR 1)) (7 - i mod 8)
          = (significant ''0001 11rd dddd rrrr'' ! i = CHR ''1''))) \<and>
   (\<exists>regs'. Match_Opcode ''0001 11rd dddd rrrr'' [0xD1, 0x9C] (\<lambda>c. 0) = Result (0, regs') \<and>
     \<not> (\<forall>i < length (significant ''0001 11rd dddd rrrr'').
        literal (significant ''0001 11rd dddd rrrr'' ! i) \<longrightarrow>
        bit ([0xD1, 0x9C :: byte] ! ((i div 8) XOR 1)) (7 - i mod 8)
          = (significant ''0001 11rd dddd rrrr'' ! i = CHR ''1'')))"
proof -
  have len: "length (significant ''0001 11rd dddd rrrr'') = 16"
    by (simp add: significant_def)
  have "\<forall>i < length (significant ''0001 11rd dddd rrrr'').
          (i div 8) XOR 1 < length [0xD1, 0x1C :: byte]"
    by (rule stream_covered) (simp_all add: len)
  from Match_Opcode_literals [OF this, of "\<lambda>c. 0"]
  obtain r regs' where
    res: "Match_Opcode ''0001 11rd dddd rrrr'' [0xD1, 0x1C] (\<lambda>c. 0) = Result (r, regs')" and
    iff: "(r = 1) = (\<forall>i < length (significant ''0001 11rd dddd rrrr'').
               literal (significant ''0001 11rd dddd rrrr'' ! i) \<longrightarrow>
               bit ([0xD1, 0x1C :: byte] ! ((i div 8) XOR 1)) (7 - i mod 8)
                 = (significant ''0001 11rd dddd rrrr'' ! i = CHR ''1''))"
    by blast
  have "\<exists>regs'. Match_Opcode ''0001 11rd dddd rrrr'' [0xD1, 0x1C] (\<lambda>c. 0) = Result (1, regs')"
    by (simp add: matcher_eval)
  with res have "r = 1" by auto
  with res iff have first:
    "\<exists>regs'. Match_Opcode ''0001 11rd dddd rrrr'' [0xD1, 0x1C] (\<lambda>c. 0) = Result (1, regs') \<and>
     (\<forall>i < length (significant ''0001 11rd dddd rrrr'').
        literal (significant ''0001 11rd dddd rrrr'' ! i) \<longrightarrow>
        bit ([0xD1, 0x1C :: byte] ! ((i div 8) XOR 1)) (7 - i mod 8)
          = (significant ''0001 11rd dddd rrrr'' ! i = CHR ''1''))"
    by simp
  have "\<forall>i < length (significant ''0001 11rd dddd rrrr'').
          (i div 8) XOR 1 < length [0xD1, 0x9C :: byte]"
    by (rule stream_covered) (simp_all add: len)
  from Match_Opcode_literals [OF this, of "\<lambda>c. 0"]
  obtain r2 regs2 where
    res2: "Match_Opcode ''0001 11rd dddd rrrr'' [0xD1, 0x9C] (\<lambda>c. 0) = Result (r2, regs2)" and
    iff2: "(r2 = 1) = (\<forall>i < length (significant ''0001 11rd dddd rrrr'').
               literal (significant ''0001 11rd dddd rrrr'' ! i) \<longrightarrow>
               bit ([0xD1, 0x9C :: byte] ! ((i div 8) XOR 1)) (7 - i mod 8)
                 = (significant ''0001 11rd dddd rrrr'' ! i = CHR ''1''))"
    by blast
  have "\<exists>regs'. Match_Opcode ''0001 11rd dddd rrrr'' [0xD1, 0x9C] (\<lambda>c. 0) = Result (0, regs')"
    by (simp add: matcher_eval)
  with res2 have "r2 = 0" by auto
  with res2 iff2 have second:
    "\<exists>regs'. Match_Opcode ''0001 11rd dddd rrrr'' [0xD1, 0x9C] (\<lambda>c. 0) = Result (0, regs') \<and>
     \<not> (\<forall>i < length (significant ''0001 11rd dddd rrrr'').
        literal (significant ''0001 11rd dddd rrrr'' ! i) \<longrightarrow>
        bit ([0xD1, 0x9C :: byte] ! ((i div 8) XOR 1)) (7 - i mod 8)
          = (significant ''0001 11rd dddd rrrr'' ! i = CHR ''1''))"
    by simp
  from first second show ?thesis by (rule conjI)
qed

section \<open>The matcher: what the accumulators hold after a match\<close>

text \<open>
  C6, the claim as it stands: in its example the field \<open>r\<close> is said to accumulate 4 bits.
  The pattern \<open>0001 11rd dddd rrrr\<close> holds \<open>r\<close> at five positions (6 and 12 to 15), so
  five stream bits are shifted into its accumulator: on the bytes of the example both
  \<open>d\<close> and \<open>r\<close> collect five bits, and on the bytes \<open>[0xD1, 0x1E]\<close>, which the pattern
  matches as well, \<open>r\<close> ends as 17, a value no 4-bit field holds. Nor does the value of
  every field equal its assembled bits: with the character of code 233 for the field of
  the pattern \<open>f1ff 0000\<close>, the index is negative, the match succeeds on a word whose
  field bits are 1, 0, 1, and the accumulator of that character is 0, not 5.
\<close>

theorem Match_Opcode_example_r_counterexample:
  "\<not> (length (field_bits ''0001 11rd dddd rrrr'' [0xD1, 0x1C] (CHR ''d'')) = 5 \<and>
      length (field_bits ''0001 11rd dddd rrrr'' [0xD1, 0x1C] (CHR ''r'')) = 4) \<and>
   length (field_bits ''0001 11rd dddd rrrr'' [0xD1, 0x1C] (CHR ''r'')) = 5 \<and>
   (\<exists>regs'. Match_Opcode ''0001 11rd dddd rrrr'' [0xD1, 0x1E] (\<lambda>c. 0) = Result (1, regs') \<and>
      regs' (CHR ''r'') = 17) \<and>
   (\<exists>regs'. Match_Opcode
        [CHR 0xE9, CHR ''1'', CHR 0xE9, CHR 0xE9, CHR '' '', CHR ''0'', CHR ''0'', CHR ''0'', CHR ''0'']
        [0x00, 0xD0] (\<lambda>c. 0) = Result (1, regs') \<and>
      regs' (CHR 0xE9) = 0) \<and>
   assemble (field_bits
        [CHR 0xE9, CHR ''1'', CHR 0xE9, CHR 0xE9, CHR '' '', CHR ''0'', CHR ''0'', CHR ''0'', CHR ''0'']
        [0x00, 0xD0] (CHR 0xE9)) = 5"
proof -
  have r: "length (field_bits ''0001 11rd dddd rrrr'' [0xD1, 0x1C] (CHR ''r'')) = 5"
    by (simp add: field_bits_def significant_def upt_rec_numeral)
  have m: "\<exists>regs'. Match_Opcode ''0001 11rd dddd rrrr'' [0xD1, 0x1E] (\<lambda>c. 0) = Result (1, regs') \<and>
      regs' (CHR ''r'') = 17"
    by (simp add: matcher_eval)
  have h: "\<exists>regs'. Match_Opcode
        [CHR 0xE9, CHR ''1'', CHR 0xE9, CHR 0xE9, CHR '' '', CHR ''0'', CHR ''0'', CHR ''0'', CHR ''0'']
        [0x00, 0xD0] (\<lambda>c. 0) = Result (1, regs') \<and>
      regs' (CHR 0xE9) = 0"
    by (simp add: matcher_eval)
  have b: "assemble (field_bits
        [CHR 0xE9, CHR ''1'', CHR 0xE9, CHR 0xE9, CHR '' '', CHR ''0'', CHR ''0'', CHR ''0'', CHR ''0'']
        [0x00, 0xD0] (CHR 0xE9)) = 5"
    by (simp add: field_bits_def significant_def upt_rec_numeral stream_bit_def assemble_def)
  from r m h b show ?thesis by simp
qed

text \<open>
  C6, amended. Every call of \<open>Match_Opcode\<close> clears all accumulators first: its result
  does not depend on what they held, and after any attempt that returns, matched or not,
  the accumulator of a character that does not occur in the pattern is 0. After a
  successful match the accumulator of every character \<open>c\<close> with a code up to 127 (every
  field letter of the registered patterns is one) other than \<open>0\<close> and \<open>1\<close> holds the
  stream bits of the positions of \<open>c\<close>, taken in pattern order, each appended as the new
  least significant bit (of a 32-bit value); the accumulators of \<open>0\<close> and \<open>1\<close> stay 0.
  On the example, \<open>d\<close> and \<open>r\<close> collect five bits each.
\<close>

theorem Match_Opcode_accumulates:
  "Match_Opcode Bitmask Bitstream regs = Match_Opcode Bitmask Bitstream other_regs \<and>
   (\<forall>r regs'. Match_Opcode Bitmask Bitstream regs = Result (r, regs') \<longrightarrow>
      (\<forall>c. c \<notin> set Bitmask \<longrightarrow> regs' c = 0)) \<and>
   (\<forall>regs'. Match_Opcode Bitmask Bitstream regs = Result (1, regs') \<longrightarrow>
      (\<forall>c. (of_char c :: nat) < 128 \<longrightarrow>
         regs' c = (if literal c then 0 else assemble (field_bits Bitmask Bitstream c))))"
proof (intro conjI allI impI)
  show "Match_Opcode Bitmask Bitstream regs = Match_Opcode Bitmask Bitstream other_regs"
    by (rule Match_Opcode_clears)
next
  fix r regs' c
  assume "Match_Opcode Bitmask Bitstream regs = Result (r, regs')" "c \<notin> set Bitmask"
  then show "regs' c = 0" by (rule Match_Opcode_absent)
next
  fix regs' c
  assume m: "Match_Opcode Bitmask Bitstream regs = Result (1, regs')"
    and low: "(of_char c :: nat) < 128"
  from Match_Opcode_fields [OF m, of c] low
  show "regs' c = (if literal c then 0 else assemble (field_bits Bitmask Bitstream c))"
    by simp
qed

theorem Match_Opcode_accumulates_witness:
  "(\<exists>regs'. Match_Opcode ''0001 11rd dddd rrrr'' [0xD1, 0x1C] (\<lambda>c. 7) = Result (1, regs') \<and>
     regs' (CHR ''d'') = assemble [False, True, True, False, True] \<and>
     regs' (CHR ''d'') = 13 \<and>
     regs' (CHR ''r'') = assemble [False, False, False, False, True] \<and>
     regs' (CHR ''r'') = 1 \<and>
     regs' (CHR ''k'') = 0 \<and> regs' (CHR ''0'') = 0 \<and> regs' (CHR ''1'') = 0) \<and>
   (\<exists>regs'. Match_Opcode ''0001 11rd dddd rrrr'' [0xD1, 0x18] (\<lambda>c. 7) = Result (0, regs') \<and>
     regs' (CHR ''k'') = 0)"
proof -
  have "\<exists>regs'. Match_Opcode ''0001 11rd dddd rrrr'' [0xD1, 0x1C] (\<lambda>c. 7) = Result (1, regs')"
    by (simp add: matcher_eval)
  then obtain regs' where
    m: "Match_Opcode ''0001 11rd dddd rrrr'' [0xD1, 0x1C] (\<lambda>c. 7) = Result (1, regs')"
    by blast
  have d: "field_bits ''0001 11rd dddd rrrr'' [0xD1, 0x1C] (CHR ''d'') = [False, True, True, False, True]"
    by (simp add: field_bits_def significant_def upt_rec_numeral stream_bit_def)
  have r: "field_bits ''0001 11rd dddd rrrr'' [0xD1, 0x1C] (CHR ''r'') = [False, False, False, False, True]"
    by (simp add: field_bits_def significant_def upt_rec_numeral stream_bit_def)
  note acc = Match_Opcode_accumulates
    [of "''0001 11rd dddd rrrr''" "[0xD1, 0x1C]" "\<lambda>c. 7" "\<lambda>c. 0"]
  from acc m have
    low: "\<forall>c. (of_char c :: nat) < 128 \<longrightarrow> regs' c = (if literal c then 0
            else assemble (field_bits ''0001 11rd dddd rrrr'' [0xD1, 0x1C] c))"
    by blast
  from acc m have absent: "\<forall>c. c \<notin> set ''0001 11rd dddd rrrr'' \<longrightarrow> regs' c = 0"
    by blast
  have "regs' (CHR ''d'') = assemble [False, True, True, False, True]"
    using low d by (simp add: literal_def)
  moreover have "regs' (CHR ''r'') = assemble [False, False, False, False, True]"
    using low r by (simp add: literal_def)
  moreover have "regs' (CHR ''k'') = 0"
    using absent by simp
  moreover have "regs' (CHR ''0'') = 0" "regs' (CHR ''1'') = 0"
    using low by (simp_all add: literal_def)
  moreover have "assemble [False, True, True, False, True] = 13"
    "assemble [False, False, False, False, True] = 1"
    by (simp_all add: assemble_def)
  ultimately have first:
    "\<exists>regs'. Match_Opcode ''0001 11rd dddd rrrr'' [0xD1, 0x1C] (\<lambda>c. 7) = Result (1, regs') \<and>
     regs' (CHR ''d'') = assemble [False, True, True, False, True] \<and>
     regs' (CHR ''d'') = 13 \<and>
     regs' (CHR ''r'') = assemble [False, False, False, False, True] \<and>
     regs' (CHR ''r'') = 1 \<and>
     regs' (CHR ''k'') = 0 \<and> regs' (CHR ''0'') = 0 \<and> regs' (CHR ''1'') = 0"
    using m by simp
  have "\<exists>regs'. Match_Opcode ''0001 11rd dddd rrrr'' [0xD1, 0x18] (\<lambda>c. 7) = Result (0, regs')"
    by (simp add: matcher_eval)
  then obtain regs2 where
    m2: "Match_Opcode ''0001 11rd dddd rrrr'' [0xD1, 0x18] (\<lambda>c. 7) = Result (0, regs2)"
    by blast
  from Match_Opcode_accumulates
    [of "''0001 11rd dddd rrrr''" "[0xD1, 0x18]" "\<lambda>c. 7" "\<lambda>c. 0"] m2
  have "\<forall>c. c \<notin> set ''0001 11rd dddd rrrr'' \<longrightarrow> regs2 c = 0"
    by blast
  then have "regs2 (CHR ''k'') = 0" by simp
  with m2 have second:
    "\<exists>regs'. Match_Opcode ''0001 11rd dddd rrrr'' [0xD1, 0x18] (\<lambda>c. 7) = Result (0, regs') \<and>
     regs' (CHR ''k'') = 0"
    by simp
  from first second show ?thesis by (rule conjI)
qed

text \<open>
  C10. The wildcard \<open>x\<close> is no special case of \<open>Match_Opcode\<close>: after a successful match
  the accumulator of \<open>x\<close> holds the stream bits of the \<open>x\<close> positions, assembled in
  pattern order. It is treated exactly as a named field character is: writing any fresh
  field character \<open>n\<close> with a code up to 127 for \<open>x\<close> throughout the pattern gives a
  match again, with the accumulator of \<open>n\<close> holding what the accumulator of \<open>x\<close> held.
\<close>

theorem Match_Opcode_wildcard_stored:
  assumes "Match_Opcode Bitmask Bitstream regs = Result (1, regs')"
  shows "regs' (CHR ''x'') = assemble (field_bits Bitmask Bitstream (CHR ''x'')) \<and>
         (\<forall>n. n \<notin> set Bitmask \<and> n \<noteq> CHR '' '' \<and> \<not> literal n \<and> (of_char n :: nat) < 128 \<longrightarrow>
            (\<exists>regs''. Match_Opcode (map (\<lambda>c. if c = CHR ''x'' then n else c) Bitmask) Bitstream regs
                        = Result (1, regs'') \<and>
                      regs'' n = regs' (CHR ''x'')))"
  using Match_Opcode_fields [OF assms, of "CHR ''x''"] Match_Opcode_renamed [OF assms]
  by (simp add: literal_def)

theorem Match_Opcode_wildcard_stored_witness:
  "\<exists>regs' regs''.
     Match_Opcode ''1001 xxxx 0000 xx11'' [0x0B, 0x9A] (\<lambda>c. 0) = Result (1, regs') \<and>
     regs' (CHR ''x'') = assemble [True, False, True, False, True, False] \<and>
     regs' (CHR ''x'') = 42 \<and>
     Match_Opcode ''1001 wwww 0000 ww11'' [0x0B, 0x9A] (\<lambda>c. 0) = Result (1, regs'') \<and>
     regs'' (CHR ''w'') = 42"
proof -
  have "\<exists>regs'. Match_Opcode ''1001 xxxx 0000 xx11'' [0x0B, 0x9A] (\<lambda>c. 0) = Result (1, regs')"
    by (simp add: matcher_eval)
  then obtain regs' where
    m: "Match_Opcode ''1001 xxxx 0000 xx11'' [0x0B, 0x9A] (\<lambda>c. 0) = Result (1, regs')"
    by blast
  have x: "field_bits ''1001 xxxx 0000 xx11'' [0x0B, 0x9A] (CHR ''x'')
             = [True, False, True, False, True, False]"
    by (simp add: field_bits_def significant_def upt_rec_numeral stream_bit_def)
  have v: "assemble [True, False, True, False, True, False] = 42"
    by (simp add: assemble_def)
  note stored = Match_Opcode_wildcard_stored [OF m]
  from stored x have a: "regs' (CHR ''x'') = assemble [True, False, True, False, True, False]"
    by simp
  have fresh: "CHR ''w'' \<notin> set ''1001 xxxx 0000 xx11'' \<and> CHR ''w'' \<noteq> CHR '' '' \<and>
      \<not> literal (CHR ''w'') \<and> (of_char (CHR ''w'') :: nat) < 128"
    by (simp add: literal_def)
  from stored [THEN conjunct2, rule_format, OF fresh] obtain regs'' where
    "Match_Opcode ''1001 wwww 0000 ww11'' [0x0B, 0x9A] (\<lambda>c. 0) = Result (1, regs'')"
    "regs'' (CHR ''w'') = regs' (CHR ''x'')"
    by auto
  with m a v show ?thesis by auto
qed

section \<open>Characters that are neither literal nor wildcard\<close>

text \<open>
  C5, the claim as it stands: \<open>Match_Opcode\<close>, the matcher the resolver calls, knows no
  invalid character. The pattern \<open>0001 11rd dddd rrrr\<close> holds \<open>r\<close> and \<open>d\<close>, neither
  \<open>0\<close>, \<open>1\<close>, \<open>x\<close> nor a blank, and is matched. \<open>Compare_Opcode\<close> does refuse such
  characters, but it stays silent when a literal bit in front of the character already
  disagrees with the stream.
\<close>

theorem invalid_character_counterexample:
  "CHR ''r'' \<in> set ''0001 11rd dddd rrrr'' \<and>
   CHR ''r'' \<notin> {CHR ''0'', CHR ''1'', CHR ''x'', CHR '' ''} \<and>
   (\<exists>regs'. Match_Opcode ''0001 11rd dddd rrrr'' [0xD1, 0x1C] (\<lambda>c. 0) = Result (1, regs')) \<and>
   Compare_Opcode [0x80] ''0r'' = Result (0, [])"
proof -
  have "\<exists>regs'. Match_Opcode ''0001 11rd dddd rrrr'' [0xD1, 0x1C] (\<lambda>c. 0) = Result (1, regs')"
    by (simp add: matcher_eval)
  moreover have "Compare_Opcode [0x80] ''0r'' = Result (0, [])"
    by (simp add: Compare_Opcode_def Compare_Opcode_loop.simps)
  ultimately show ?thesis by simp
qed

text \<open>
  C5, amended. For every pattern that holds a character other than \<open>0\<close>, \<open>1\<close> and
  \<open>x\<close> (a blank is such a character here) and every stream with a bit for each
  character of the pattern, \<open>Compare_Opcode\<close> returns 0, a definite non-match, and
  returns normally; it writes \<open>Invalid Bitmask!\<close> exactly when the stream agrees with the
  pattern up to the first such character.
\<close>

theorem Compare_Opcode_invalid:
  assumes "\<exists>c \<in> set Bitmask. c \<noteq> CHR ''0'' \<and> c \<noteq> CHR ''1'' \<and> c \<noteq> CHR ''x''"
    and "length Bitmask \<le> 8 * length Bitstream"
  shows "Compare_Opcode Bitstream Bitmask =
           Result (0, if \<forall>k < first_invalid Bitmask. compare_agrees Bitstream Bitmask k
                      then [''Invalid Bitmask!''] else [])"
proof -
  from assms(1) have "\<exists>c \<in> set Bitmask. \<not> mask_char c"
    by (auto simp: mask_char_def)
  then have "first_invalid Bitmask < length Bitmask"
    by (simp add: first_invalid_less)
  from Compare_Opcode_loop_invalid [OF this assms(2), of 0] show ?thesis
    by (simp add: Compare_Opcode_def)
qed

theorem Compare_Opcode_invalid_witness:
  "Compare_Opcode [0x1C] ''000111rd'' = Result (0, [''Invalid Bitmask!'']) \<and>
   Compare_Opcode [0x1C] ''1r'' = Result (0, [])"
proof -
  have fi: "first_invalid ''000111rd'' = 6" "first_invalid ''1r'' = 1"
    by (simp_all add: first_invalid_def mask_char_def)
  have "list_all (compare_agrees [0x1C] ''000111rd'') [0..<6]"
    by (simp add: upt_conv_Cons compare_agrees_def)
  then have a: "\<forall>k < first_invalid ''000111rd''. compare_agrees [0x1C] ''000111rd'' k"
    by (simp add: fi all_less_list_all)
  have "\<not> list_all (compare_agrees [0x1C] ''1r'') [0..<1]"
    by (simp add: upt_conv_Cons compare_agrees_def)
  then have b: "\<not> (\<forall>k < first_invalid ''1r''. compare_agrees [0x1C] ''1r'' k)"
    by (simp add: fi all_less_list_all)
  have "Compare_Opcode [0x1C] ''000111rd'' = Result (0, [''Invalid Bitmask!''])"
    using Compare_Opcode_invalid [of "''000111rd''" "[0x1C]"] a by simp
  moreover have "Compare_Opcode [0x1C] ''1r'' = Result (0, [])"
    using Compare_Opcode_invalid [of "''1r''" "[0x1C]"] b by simp
  ultimately show ?thesis by simp
qed

section \<open>Specificity and the order of the registry\<close>

text \<open>
  C3. \<open>Get_Specifity\<close> returns the number of \<open>0\<close> and \<open>1\<close> characters of any pattern.
  Whatever \<open>qsort\<close> the C library supplies, as long as it keeps its contract, the array
  it leaves is ordered by non-increasing specificity; so is the registry that \<open>disasm\<close>
  builds, and in it every all-literal pattern stands before every pattern that holds a
  field character.
\<close>

theorem registry_sorted_by_specificity:
  assumes "qsort_contract (qsort ext)"
  shows "(\<forall>Opcode. Get_Specifity Opcode =
            length (filter (\<lambda>c. c = CHR ''0'' \<or> c = CHR ''1'') Opcode)) \<and>
         (\<forall>xs. sorted_wrt
            (\<lambda>a b. Get_Specifity (Opcode_String b) \<le> Get_Specifity (Opcode_String a))
            (qsort ext Comparison xs)) \<and>
         sorted_wrt
            (\<lambda>a b. Get_Specifity (Opcode_String b) \<le> Get_Specifity (Opcode_String a))
            (dis_op (build_registry ext cx)) \<and>
         (\<forall>i j. i < length (dis_op (build_registry ext cx)) \<and>
                j < length (dis_op (build_registry ext cx)) \<and>
                all_literal (Opcode_String (dis_op (build_registry ext cx) ! i)) \<and>
                \<not> all_literal (Opcode_String (dis_op (build_registry ext cx) ! j))
                \<longrightarrow> i < j)"
proof -
  let ?ys = "dis_op (build_registry ext cx)"
  have count: "\<forall>Opcode. Get_Specifity Opcode =
      length (filter (\<lambda>c. c = CHR ''0'' \<or> c = CHR ''1'') Opcode)"
    using Get_Specifity_count by (simp add: literal_def [abs_def])
  have gen: "\<forall>xs. sorted_wrt
      (\<lambda>a b. Get_Specifity (Opcode_String b) \<le> Get_Specifity (Opcode_String a))
      (qsort ext Comparison xs)"
    using qsort_contract_sorted [OF assms] by (simp add: specificity_def)
  have "\<exists>xs. ?ys = qsort ext Comparison xs"
    by (auto simp: build_registry_def Let_def)
  with gen have sorted: "sorted_wrt
      (\<lambda>a b. Get_Specifity (Opcode_String b) \<le> Get_Specifity (Opcode_String a)) ?ys"
    by auto
  have order: "i < j"
    if "i < length ?ys" "j < length ?ys" "all_literal (Opcode_String (?ys ! i))"
      "\<not> all_literal (Opcode_String (?ys ! j))" for i j
  proof (rule ccontr)
    assume "\<not> i < j"
    moreover from that have "i \<noteq> j" by auto
    ultimately have "j < i" by simp
    with sorted that(1) have
      "Get_Specifity (Opcode_String (?ys ! i)) \<le> Get_Specifity (Opcode_String (?ys ! j))"
      by (simp add: sorted_wrt_iff_nth_less)
    moreover have "specificity (?ys ! i) = 16"
      using registry_entry_specificity [OF assms, of "?ys ! i" cx] that(1,3) by simp
    moreover have "specificity (?ys ! j) < 16"
      using registry_entry_specificity [OF assms, of "?ys ! j" cx] that(2,4) by simp
    ultimately show False by (simp add: specificity_def)
  qed
  from count gen sorted order show ?thesis by blast
qed

theorem registry_sorted_by_specificity_witness:
  "Get_Specifity ''0001 11rd  dddd rrrr'' = 6 \<and>
   qsort (plain_externals []) Comparison
     [\<lparr>Opcode_String = ''0001 11rd  dddd rrrr'', mnemo = ''OPCODE_adc'', Callback = ''adc_Callback''\<rparr>,
      \<lparr>Opcode_String = ''0000 0000  0000 0000'', mnemo = ''OPCODE_nop'', Callback = ''nop_Callback''\<rparr>]
   = [\<lparr>Opcode_String = ''0000 0000  0000 0000'', mnemo = ''OPCODE_nop'', Callback = ''nop_Callback''\<rparr>,
      \<lparr>Opcode_String = ''0001 11rd  dddd rrrr'', mnemo = ''OPCODE_adc'', Callback = ''adc_Callback''\<rparr>] \<and>
   sorted_wrt (\<lambda>a b. Get_Specifity (Opcode_String b) \<le> Get_Specifity (Opcode_String a))
     (dis_op (build_registry (plain_externals []) plain_context))"
proof -
  have c: "qsort_contract (qsort (plain_externals []))"
    by (simp add: plain_externals_def insertion_qsort_contract)
  have "Get_Specifity ''0001 11rd  dddd rrrr'' = 6"
    by (simp add: Get_Specifity_def)
  moreover have "qsort (plain_externals []) Comparison
     [\<lparr>Opcode_String = ''0001 11rd  dddd rrrr'', mnemo = ''OPCODE_adc'', Callback = ''adc_Callback''\<rparr>,
      \<lparr>Opcode_String = ''0000 0000  0000 0000'', mnemo = ''OPCODE_nop'', Callback = ''nop_Callback''\<rparr>]
   = [\<lparr>Opcode_String = ''0000 0000  0000 0000'', mnemo = ''OPCODE_nop'', Callback = ''nop_Callback''\<rparr>,
      \<lparr>Opcode_String = ''0001 11rd  dddd rrrr'', mnemo = ''OPCODE_adc'', Callback = ''adc_Callback''\<rparr>]"
    by (simp add: plain_externals_def insertion_qsort_def Comparison_def Get_Specifity_def)
  moreover note registry_sorted_by_specificity
    [OF c, of plain_context, THEN conjunct2, THEN conjunct2, THEN conjunct1]
  ultimately show ?thesis by blast
qed

text \<open>
  C4, the claim as it stands: the sort is \<open>qsort\<close> with a comparison that returns 0 for
  entries of equal specificity, and the C library promises nothing about the order of
  such entries. \<open>reversing_qsort\<close> keeps the contract of \<open>qsort\<close> and puts \<open>brsh\<close>, which
  is registered after \<open>brcc\<close> with the same pattern, in front of it.
\<close>

theorem qsort_ties_counterexample:
  "qsort_contract reversing_qsort \<and>
   Comparison
     \<lparr>Opcode_String = ''1111 01kk  kkkk k000'', mnemo = ''OPCODE_brcc'', Callback = ''brcc_Callback''\<rparr>
     \<lparr>Opcode_String = ''1111 01kk  kkkk k000'', mnemo = ''OPCODE_brsh'', Callback = ''brsh_Callback''\<rparr>
     = 0 \<and>
   reversing_qsort Comparison
     [\<lparr>Opcode_String = ''1111 01kk  kkkk k000'', mnemo = ''OPCODE_brcc'', Callback = ''brcc_Callback''\<rparr>,
      \<lparr>Opcode_String = ''1111 01kk  kkkk k000'', mnemo = ''OPCODE_brsh'', Callback = ''brsh_Callback''\<rparr>]
   = [\<lparr>Opcode_String = ''1111 01kk  kkkk k000'', mnemo = ''OPCODE_brsh'', Callback = ''brsh_Callback''\<rparr>,
      \<lparr>Opcode_String = ''1111 01kk  kkkk k000'', mnemo = ''OPCODE_brcc'', Callback = ''brcc_Callback''\<rparr>]"
  by (simp add: reversing_qsort_contract reversing_qsort_def insertion_qsort_def Comparison_def)

text \<open>
  C4, amended. After the sort the entries of each specificity are the entries registered
  with that specificity, each as often as it was registered, and the registry is in
  non-increasing order of specificity; in which order the entries of one specificity
  stand is left to the library's \<open>qsort\<close>.
\<close>

theorem equal_specificity_kept_as_multiset:
  assumes "qsort_contract q"
  shows "mset (filter (\<lambda>entry. specificity entry = k) (q Comparison xs)) =
         mset (filter (\<lambda>entry. specificity entry = k) xs) \<and>
         sorted_wrt (\<lambda>a b. specificity b \<le> specificity a) (q Comparison xs)"
  using qsort_contract_mset [OF assms, of xs] qsort_contract_sorted [OF assms, of xs]
  by simp

theorem equal_specificity_kept_as_multiset_witness:
  "mset (filter (\<lambda>entry. specificity entry = 9) (insertion_qsort Comparison
     [\<lparr>Opcode_String = ''1111 01kk  kkkk k000'', mnemo = ''OPCODE_brcc'', Callback = ''brcc_Callback''\<rparr>,
      \<lparr>Opcode_String = ''0000 0000  0000 0000'', mnemo = ''OPCODE_nop'', Callback = ''nop_Callback''\<rparr>,
      \<lparr>Opcode_String = ''1111 01kk  kkkk k000'', mnemo = ''OPCODE_brsh'', Callback = ''brsh_Callback''\<rparr>]))
   = {#\<lparr>Opcode_String = ''1111 01kk  kkkk k000'', mnemo = ''OPCODE_brcc'', Callback = ''brcc_Callback''\<rparr>,
       \<lparr>Opcode_String = ''1111 01kk  kkkk k000'', mnemo = ''OPCODE_brsh'', Callback = ''brsh_Callback''\<rparr>#}"
  using equal_specificity_kept_as_multiset [OF insertion_qsort_contract, of 9
     "[\<lparr>Opcode_String = ''1111 01kk  kkkk k000'', mnemo = ''OPCODE_brcc'', Callback = ''brcc_Callback''\<rparr>,
      \<lparr>Opcode_String = ''0000 0000  0000 0000'', mnemo = ''OPCODE_nop'', Callback = ''nop_Callback''\<rparr>,
      \<lparr>Opcode_String = ''1111 01kk  kkkk k000'', mnemo = ''OPCODE_brsh'', Callback = ''brsh_Callback''\<rparr>]"]
  by (simp add: specificity_def Get_Specifity_def)

section \<open>The resolver returns the first match\<close>

text \<open>
  C2. On bytes that hold the stream bytes of every registered pattern,
  \<open>Get_Next_Opcode\<close> returns the index of the first entry of the registry that
  \<open>Match_Opcode\<close> accepts, and \<open>-1\<close> when it accepts none. When the registry is in the
  order \<open>qsort\<close> leaves it, an accepted entry that is more specific than every other
  accepted entry is the one returned: so of an all-literal entry of specificity 16 and an
  entry with 10 literal bits that accept the same bytes, the all-literal one is returned.
\<close>

theorem Get_Next_Opcode_first_match:
  assumes "\<forall>entry \<in> set ops. covered entry Bitstream"
  shows "\<exists>r regs'. Get_Next_Opcode ops Bitstream regs = Result (r, regs') \<and>
           ((r = - 1 \<and> (\<forall>entry \<in> set ops. \<not> accepts entry Bitstream)) \<or>
            (\<exists>k < length ops. r = int k \<and> accepts (ops ! k) Bitstream \<and>
               (\<forall>j < k. \<not> accepts (ops ! j) Bitstream))) \<and>
           (\<forall>a. sorted_wrt (\<lambda>x y. Comparison x y \<le> 0) ops \<and> a \<in> set ops \<and>
                accepts a Bitstream \<and>
                (\<forall>entry \<in> set ops. entry \<noteq> a \<and> accepts entry Bitstream
                   \<longrightarrow> specificity entry < specificity a)
                \<longrightarrow> 0 \<le> r \<and> nat r < length ops \<and> ops ! nat r = a)"
proof -
  from Get_Next_Opcode_loop_first [OF assms, of 0 regs] obtain r regs' where
    res: "Get_Next_Opcode ops Bitstream regs = Result (r, regs')" and
    alt: "(r = - 1 \<and> (\<forall>entry \<in> set ops. \<not> accepts entry Bitstream)) \<or>
          (\<exists>k < length ops. r = int k \<and> accepts (ops ! k) Bitstream \<and>
             (\<forall>j < k. \<not> accepts (ops ! j) Bitstream))"
    by (auto simp: Get_Next_Opcode_def)
  have best: "0 \<le> r \<and> nat r < length ops \<and> ops ! nat r = a"
    if sorted: "sorted_wrt (\<lambda>x y. Comparison x y \<le> 0) ops" and a: "a \<in> set ops"
      and acc: "accepts a Bitstream"
      and top: "\<forall>entry \<in> set ops. entry \<noteq> a \<and> accepts entry Bitstream
                   \<longrightarrow> specificity entry < specificity a"
    for a
  proof -
    from alt a acc obtain k where k: "k < length ops" "r = int k" "accepts (ops ! k) Bitstream"
      "\<forall>j < k. \<not> accepts (ops ! j) Bitstream"
      by blast
    from a obtain m where m: "m < length ops" "ops ! m = a"
      by (auto simp: in_set_conv_nth)
    have "ops ! k = a"
    proof (rule ccontr)
      assume neq: "ops ! k \<noteq> a"
      with k(1,3) top have less: "specificity (ops ! k) < specificity a" by simp
      from k(4) m acc have "\<not> m < k" by auto
      moreover from neq m have "m \<noteq> k" by auto
      ultimately have "k < m" by simp
      with sorted m(1) have "Comparison (ops ! k) (ops ! m) \<le> 0"
        by (simp add: sorted_wrt_iff_nth_less)
      with m(2) less show False by (simp add: Comparison_le)
    qed
    with k show ?thesis by simp
  qed
  from res alt best show ?thesis by blast
qed

theorem Get_Next_Opcode_first_match_witness:
  "insertion_qsort Comparison
     [\<lparr>Opcode_String = ''1001 01dd  dddd 1000'', mnemo = ''ten'', Callback = ''ten_Callback''\<rparr>,
      \<lparr>Opcode_String = ''1001 0101  0000 1000'', mnemo = ''OPCODE_ret'', Callback = ''ret_Callback''\<rparr>]
   = [\<lparr>Opcode_String = ''1001 0101  0000 1000'', mnemo = ''OPCODE_ret'', Callback = ''ret_Callback''\<rparr>,
      \<lparr>Opcode_String = ''1001 01dd  dddd 1000'', mnemo = ''ten'', Callback = ''ten_Callback''\<rparr>] \<and>
   specificity \<lparr>Opcode_String = ''1001 0101  0000 1000'', mnemo = ''OPCODE_ret'', Callback = ''ret_Callback''\<rparr> = 16 \<and>
   specificity \<lparr>Opcode_String = ''1001 01dd  dddd 1000'', mnemo = ''ten'', Callback = ''ten_Callback''\<rparr> = 10 \<and>
   accepts \<lparr>Opcode_String = ''1001 0101  0000 1000'', mnemo = ''OPCODE_ret'', Callback = ''ret_Callback''\<rparr>
     [0x08, 0x95] \<and>
   accepts \<lparr>Opcode_String = ''1001 01dd  dddd 1000'', mnemo = ''ten'', Callback = ''ten_Callback''\<rparr>
     [0x08, 0x95] \<and>
   (\<exists>r regs'. Get_Next_Opcode
       (insertion_qsort Comparison
         [\<lparr>Opcode_String = ''1001 01dd  dddd 1000'', mnemo = ''ten'', Callback = ''ten_Callback''\<rparr>,
          \<lparr>Opcode_String = ''1001 0101  0000 1000'', mnemo = ''OPCODE_ret'', Callback = ''ret_Callback''\<rparr>])
       [0x08, 0x95] (\<lambda>c. 0) = Result (r, regs') \<and>
     r = 0 \<and>
     insertion_qsort Comparison
         [\<lparr>Opcode_String = ''1001 01dd  dddd 1000'', mnemo = ''ten'', Callback = ''ten_Callback''\<rparr>,
          \<lparr>Opcode_String = ''1001 0101  0000 1000'', mnemo = ''OPCODE_ret'', Callback = ''ret_Callback''\<rparr>]
       ! nat r
     = \<lparr>Opcode_String = ''1001 0101  0000 1000'', mnemo = ''OPCODE_ret'', Callback = ''ret_Callback''\<rparr>)"
proof -
  define a where
    "a = \<lparr>Opcode_String = ''1001 0101  0000 1000'', mnemo = ''OPCODE_ret'', Callback = ''ret_Callback''\<rparr>"
  define b where
    "b = \<lparr>Opcode_String = ''1001 01dd  dddd 1000'', mnemo = ''ten'', Callback = ''ten_Callback''\<rparr>"
  define bs :: "byte list" where "bs = [0x08, 0x95]"
  have spec: "specificity a = 16" "specificity b = 10"
    by (simp_all add: a_def b_def specificity_def Get_Specifity_def)
  have sorted: "insertion_qsort Comparison [b, a] = [a, b]"
    by (simp add: insertion_qsort_def Comparison_le spec)
  have acc: "accepts a bs" "accepts b bs"
    by (simp_all add: a_def b_def bs_def accepts_def matcher_eval)
  have cov: "\<forall>entry \<in> set [a, b]. covered entry bs"
    by (simp add: a_def b_def bs_def covered_def Get_Bitmask_Length_def upt_rec_numeral)
  have ne: "a \<noteq> b" by (simp add: a_def b_def)
  from Get_Next_Opcode_first_match [OF cov, of "\<lambda>c. 0"] obtain r regs' where
    res: "Get_Next_Opcode [a, b] bs (\<lambda>c. 0) = Result (r, regs')" and
    best: "\<forall>x. sorted_wrt (\<lambda>x y. Comparison x y \<le> 0) [a, b] \<and> x \<in> set [a, b] \<and>
                accepts x bs \<and>
                (\<forall>entry \<in> set [a, b]. entry \<noteq> x \<and> accepts entry bs
                   \<longrightarrow> specificity entry < specificity x)
                \<longrightarrow> 0 \<le> r \<and> nat r < length [a, b] \<and> [a, b] ! nat r = x"
    by blast
  have "0 \<le> r \<and> nat r < length [a, b] \<and> [a, b] ! nat r = a"
    using best [rule_format, of a] acc spec by (simp add: Comparison_le)
  with ne have r: "r = 0" "[a, b] ! nat r = a"
    by (auto simp: nth_Cons split: nat.splits)
  from res r sorted have
    "\<exists>r regs'. Get_Next_Opcode (insertion_qsort Comparison [b, a]) bs (\<lambda>c. 0) = Result (r, regs') \<and>
       r = 0 \<and> insertion_qsort Comparison [b, a] ! nat r = a"
    by simp
  with sorted spec acc have
    "insertion_qsort Comparison [b, a] = [a, b] \<and> specificity a = 16 \<and> specificity b = 10 \<and>
     accepts a bs \<and> accepts b bs \<and>
     (\<exists>r regs'. Get_Next_Opcode (insertion_qsort Comparison [b, a]) bs (\<lambda>c. 0) = Result (r, regs') \<and>
       r = 0 \<and> insertion_qsort Comparison [b, a] ! nat r = a)"
    by (intro conjI)
  then show ?thesis
    unfolding a_def b_def bs_def .
qed

section \<open>Pass 2 on bytes that no opcode matches\<close>

text \<open>
  C7. In pass 2, at a position below \<open>Read\<close> that the tag file does not cover
  (\<open>Tagfile_Process_Data\<close> returns 0) and for which \<open>Get_Next_Opcode\<close> returns \<open>-1\<close>,
  the turn of the loop ends normally: after whatever the tag collaborator printed it
  prints the placeholder with the two bytes of the word and the position, and the loop
  goes on from \<open>Pos + 2\<close>. The word lies in the buffer as soon as the registry has a
  first pattern with a significant character, since the matcher has then read byte
  \<open>Pos + 1\<close>; with an empty registry it has to be asked for.
\<close>

theorem Disassemble_pass2_unrecognized:
  assumes "int Pos < Read"
    and "Tagfile_Process_Data ext Bitstream Pos (collab cx) = (0, lines, x)"
    and "Get_Next_Opcode (dis_op cx) (drop Pos Bitstream) (dis_regs cx) = Result (- 1, regs)"
    and "(dis_op cx \<noteq> [] \<and> 0 < Get_Bitmask_Length (Opcode_String (hd (dis_op cx)))) \<or>
         Pos + 1 < length Bitstream"
  shows "\<exists>cx'. Disassemble_pass2_step ext Bitstream Pos cx = Result (Pos + 2, cx') \<and>
           stdout cx' = stdout cx @ map Text lines @
             [Invalid_Opcode (Bitstream ! (Pos + 1)) (Bitstream ! Pos) Pos] \<and>
           Disassemble_pass2 ext Bitstream Read Pos cx =
             Disassemble_pass2 ext Bitstream Read (Pos + 2) cx'"
proof -
  have inb: "Pos + 1 < length Bitstream"
    using assms(4)
  proof
    assume "dis_op cx \<noteq> [] \<and> 0 < Get_Bitmask_Length (Opcode_String (hd (dis_op cx)))"
    with Get_Next_Opcode_reads_first_word [OF assms(3)] show ?thesis by simp
  qed
  define cx' where
    "cx' = emit [Invalid_Opcode (Bitstream ! (Pos + 1)) (Bitstream ! Pos) Pos]
             ((emit (map Text lines) (cx\<lparr>collab := x\<rparr>))\<lparr>dis_regs := regs\<rparr>)"
  have step: "Disassemble_pass2_step ext Bitstream Pos cx = Result (Pos + 2, cx')"
    using assms(2,3) inb by (simp add: Disassemble_pass2_step_def cx'_def Let_def)
  have out: "stdout cx' = stdout cx @ map Text lines @
             [Invalid_Opcode (Bitstream ! (Pos + 1)) (Bitstream ! Pos) Pos]"
    by (simp add: cx'_def)
  have "Disassemble_pass2 ext Bitstream Read Pos cx =
          Disassemble_pass2 ext Bitstream Read (Pos + 2) cx'"
    using assms(1) step by (subst Disassemble_pass2.simps) simp
  with step out show ?thesis by blast
qed


theorem Disassemble_pass2_unrecognized_witness:
  "\<exists>cx'. Disassemble_pass2 (plain_externals []) [0xFF, 0xFF] 2 0
            (plain_context\<lparr>dis_op := [\<lparr>Opcode_String = ''0000 0000  0000 0000'',
               mnemo = ''OPCODE_nop'', Callback = ''nop_Callback''\<rparr>]\<rparr>) = Some (Result cx') \<and>
         stdout cx' = [Invalid_Opcode 0xFF 0xFF 0]"
proof -
  define cx0 where
    "cx0 = plain_context\<lparr>dis_op := [\<lparr>Opcode_String = ''0000 0000  0000 0000'',
               mnemo = ''OPCODE_nop'', Callback = ''nop_Callback''\<rparr>]\<rparr>"
  define bs :: "byte list" where "bs = [0xFF, 0xFF]"
  have h1: "int 0 < 2" by simp
  have h2: "Tagfile_Process_Data (plain_externals []) bs 0 (collab cx0) = (0, [], ())"
    by (simp add: plain_externals_def)
  have "\<exists>regs. Get_Next_Opcode (dis_op cx0) (drop 0 bs) (dis_regs cx0) = Result (- 1, regs)"
    by (simp add: cx0_def bs_def plain_context_def Get_Next_Opcode_def matcher_eval)
  then obtain regs where
    h3: "Get_Next_Opcode (dis_op cx0) (drop 0 bs) (dis_regs cx0) = Result (- 1, regs)"
    by blast
  have h4: "(dis_op cx0 \<noteq> [] \<and> 0 < Get_Bitmask_Length (Opcode_String (hd (dis_op cx0)))) \<or>
         0 + 1 < length bs"
    by (simp add: bs_def)
  from Disassemble_pass2_unrecognized [OF h1 h2 h3 h4] obtain cx' where
    out: "stdout cx' = stdout cx0 @ map Text [] @ [Invalid_Opcode (bs ! (0 + 1)) (bs ! 0) 0]" and
    loop: "Disassemble_pass2 (plain_externals []) bs 2 0 cx0 =
           Disassemble_pass2 (plain_externals []) bs 2 (0 + 2) cx'"
    by blast
  have "Disassemble_pass2 (plain_externals []) bs 2 (0 + 2) cx' = Some (Result cx')"
    by (subst Disassemble_pass2.simps) simp
  with loop out have
    "Disassemble_pass2 (plain_externals []) bs 2 0 cx0 = Some (Result cx') \<and>
     stdout cx' = [Invalid_Opcode 0xFF 0xFF 0]"
    by (simp add: cx0_def bs_def plain_context_def)
  then show ?thesis unfolding cx0_def bs_def by blast
qed

section \<open>The end of the buffer\<close>

text \<open>
  C8, the claim as it stands: the driver never compares the length of a pattern with the
  bytes that are left. The two bytes \<open>[0x0E, 0x94]\<close> are the first word of a \<open>call\<close>;
  with \<open>Read = 2\<close> the matcher goes on to the second word of the \<open>call\<close> pattern and
  reads byte 3 of a buffer of two bytes. The run does not fall back to the 2-byte path.
\<close>

theorem short_buffer_counterexample:
  "disasm (plain_externals []) [0x0E, 0x94] 2 0 plain_context = Some Out_Of_Bounds \<and>
   (\<exists>regs'. Match_Opcode ''1001 010k  kkkk 111k'' [0x0E, 0x94] (\<lambda>c. 0) = Result (1, regs'))"
proof -
  define ext where "ext = plain_externals []"
  define bs :: "byte list" where "bs = [0x0E, 0x94]"
  define cx3 where "cx3 = build_registry ext (plain_context\<lparr>collab := ()\<rparr>)"
  have contract: "qsort_contract (qsort ext)"
    by (simp add: ext_def plain_externals_def insertion_qsort_contract)
  have pats: "set (map Opcode_String (dis_op cx3)) = set (map (\<lambda>(cb, s, m). s) registrations)"
    unfolding cx3_def by (rule patterns_build_registry [OF contract])
  have none: "\<not> accepts entry bs" if "entry \<in> set (dis_op cx3)" for entry
  proof -
    from that have "Opcode_String entry \<in> set (map Opcode_String (dis_op cx3))" by simp
    then have "Opcode_String entry \<in> set (map (\<lambda>(cb, s, m). s) registrations)"
      by (simp only: pats)
    then obtain cb m where "(cb, Opcode_String entry, m) \<in> set registrations" by auto
    with no_registered_pattern_accepts_call_word show ?thesis
      by (auto simp: list_all_iff accepts_def bs_def split: outcome.splits)
  qed
  have "''1001 010k  kkkk 111k    kkkk kkkk  kkkk kkkk'' \<in> set (map (\<lambda>(cb, s, m). s) registrations)"
    by (simp add: registrations_def)
  then have "''1001 010k  kkkk 111k    kkkk kkkk  kkkk kkkk'' \<in> set (map Opcode_String (dis_op cx3))"
    by (simp only: pats)
  then obtain entry where e: "entry \<in> set (dis_op cx3)"
    "Opcode_String entry = ''1001 010k  kkkk 111k    kkkk kkkk  kkkk kkkk''"
    by auto
  have "Match_Opcode (Opcode_String entry) bs (\<lambda>c. 0) = Out_Of_Bounds"
    unfolding e(2) bs_def by (rule call_pattern_reads_outside)
  with e(1) have
    "\<exists>entry \<in> set (dis_op cx3). Match_Opcode (Opcode_String entry) bs (\<lambda>c. 0) = Out_Of_Bounds"
    by blast
  with none have outside: "Get_Next_Opcode (dis_op cx3) bs regs = Out_Of_Bounds" for regs
    by (simp add: Get_Next_Opcode_def Get_Next_Opcode_loop_outside)
  define cx0 where "cx0 = set_Pass 1 cx3"
  have ops0: "dis_op cx0 = dis_op cx3" by (simp add: cx0_def)
  have "Tagfile_Process_Data ext bs 0 (collab cx0) = (0, [], ())"
    by (simp add: ext_def plain_externals_def)
  then have step: "Disassemble_pass2_step ext bs 0 cx0 = Out_Of_Bounds"
    by (simp add: Disassemble_pass2_step_def Let_def ops0 outside)
  have loop: "Disassemble_pass2 ext bs 2 0 cx0 = Some Out_Of_Bounds"
    by (subst Disassemble_pass2.simps) (simp add: step)
  have "dis_opts cx0 = plain_options\<lparr>Pass := 1\<rparr>"
    by (simp add: cx0_def cx3_def plain_context_def set_Pass_def)
  then have "Disassemble ext bs 2 0 cx3 = Some Out_Of_Bounds"
    unfolding Disassemble_def Let_def cx0_def [symmetric]
    by (simp add: plain_options_def and_then_def loop)
  moreover have "\<not> table_broken ext"
    by (simp add: table_broken_def ext_def plain_externals_def)
  moreover have "read_tagfile ext plain_context = (True, ())"
    by (simp add: read_tagfile_def plain_context_def plain_options_def)
  ultimately have "disasm ext bs 2 0 plain_context = Some Out_Of_Bounds"
    by (simp add: disasm_def Let_def cx3_def and_then_def)
  moreover have
    "\<exists>regs'. Match_Opcode ''1001 010k  kkkk 111k'' [0x0E, 0x94] (\<lambda>c. 0) = Result (1, regs')"
    by (simp add: matcher_eval)
  ultimately show ?thesis by (simp add: ext_def bs_def)
qed

text \<open>
  C8, amended. When the buffer extends at least three bytes beyond \<open>Read\<close> (the longest
  registered pattern takes four bytes), every read of the driver stays inside the buffer
  and the run returns, whatever the collaborators do and whichever \<open>qsort\<close> keeps the
  library's contract. The driver itself does not compare what is left of the buffer with
  the length of a pattern; the slack behind \<open>Read\<close> is the caller's to supply.
\<close>

theorem Disassemble_inside_padded_buffer:
  assumes "qsort_contract (qsort ext)" "nat Read + 3 \<le> length Bitstream"
  shows "(\<exists>cx'. Disassemble ext Bitstream Read addr (build_registry ext cx) = Some (Result cx')) \<and>
         (\<exists>r cx'. disasm ext Bitstream Read addr cx = Some (Result (r, cx')))"
proof -
  have "even (4 :: nat)" "2 \<le> (4 :: nat)" "nat Read + 4 \<le> length Bitstream + 1"
    using assms(2) by simp_all
  from Disassemble_returns [OF this registry_fits_build_registry [OF assms(1)]]
    disasm_returns [OF assms]
  show ?thesis by blast
qed

theorem Disassemble_inside_padded_buffer_witness:
  "\<exists>r cx'. disasm (plain_externals []) [0x0E, 0x94, 0, 0, 0] 2 0 plain_context =
     Some (Result (r, cx'))"
proof -
  have "qsort_contract (qsort (plain_externals []))"
    by (simp add: plain_externals_def insertion_qsort_contract)
  moreover have "nat 2 + 3 \<le> length [0x0E, 0x94, 0, 0, 0 :: byte]" by simp
  ultimately show ?thesis
    using Disassemble_inside_padded_buffer [of "plain_externals []" 2 "[0x0E, 0x94, 0, 0, 0]" 0 plain_context]
    by blast
qed

section \<open>What stops a run before it decodes\<close>

text \<open>
  C9, the claim as it stands: the check in \<open>disasm\<close> looks at the table alone, row \<open>i\<close>
  must carry the mnemonic \<open>i\<close>; the registry takes no part in it. The file registers 131
  opcodes and, by its own comment, leaves at least 8 untreated and 20 unofficial ones of
  the table out, so the table has more rows than the registry has entries. A table of
  159 rows numbered in order passes the check although the mnemonics of the registry are
  no permutation of it under any numbering of the enumeration, and the run returns 0.
\<close>

theorem table_check_counterexample:
  "\<not> table_broken (plain_externals [0..<159]) \<and>
   length (dis_op (build_registry (plain_externals [0..<159]) plain_context)) = 131 \<and>
   (\<forall>number. mset (map (\<lambda>entry. number (mnemo entry))
                    (dis_op (build_registry (plain_externals [0..<159]) plain_context)))
             \<noteq> mset (avr_opcodes (plain_externals [0..<159]))) \<and>
   (\<exists>cx'. disasm (plain_externals [0..<159]) [] 0 0 plain_context = Some (Result (0, cx')))"
proof -
  define ext where "ext = plain_externals [0..<159]"
  have contract: "qsort_contract (qsort ext)"
    by (simp add: ext_def plain_externals_def insertion_qsort_contract)
  have table: "avr_opcodes ext = [0..<159]"
    by (simp add: ext_def plain_externals_def)
  have ok: "\<not> table_broken ext"
    by (simp add: table_broken_iff table)
  have len: "length (dis_op (build_registry ext plain_context)) = 131"
    by (simp add: length_build_registry [OF contract] length_registrations)
  have differ: "mset (map (\<lambda>entry. number (mnemo entry)) (dis_op (build_registry ext plain_context)))
      \<noteq> mset (avr_opcodes ext)" for number :: "AVR_opcode \<Rightarrow> nat"
  proof
    assume "mset (map (\<lambda>entry. number (mnemo entry)) (dis_op (build_registry ext plain_context)))
      = mset (avr_opcodes ext)"
    then have "size (mset (map (\<lambda>entry. number (mnemo entry))
        (dis_op (build_registry ext plain_context)))) = size (mset (avr_opcodes ext))"
      by simp
    with len table show False by simp
  qed
  have tag: "read_tagfile ext plain_context = (True, ())"
    by (simp add: read_tagfile_def plain_context_def plain_options_def)
  define cx3 where "cx3 = build_registry ext (plain_context\<lparr>collab := ()\<rparr>)"
  define cx0 where "cx0 = set_Pass 1 cx3"
  have loop: "Disassemble_pass2 ext [] 0 0 cx0 = Some (Result cx0)"
    by (subst Disassemble_pass2.simps) simp
  have "dis_opts cx0 = plain_options\<lparr>Pass := 1\<rparr>"
    by (simp add: cx0_def cx3_def plain_context_def set_Pass_def)
  then have "Disassemble ext [] 0 0 cx3 = Some (Result cx0)"
    unfolding Disassemble_def Let_def cx0_def [symmetric]
    by (simp add: plain_options_def and_then_def loop)
  with ok tag have "disasm ext [] 0 0 plain_context = Some (Result (0, cx0))"
    by (simp add: disasm_def Let_def cx3_def and_then_def)
  then have "\<exists>cx'. disasm ext [] 0 0 plain_context = Some (Result (0, cx'))"
    by blast
  with ok len differ show ?thesis
    unfolding ext_def by blast
qed

text \<open>
  C9, amended. Before decoding starts \<open>disasm\<close> makes one consistency check: every row
  \<open>i\<close> of the external opcode table must carry the mnemonic \<open>i\<close>; if a row does not, the
  run returns \<open>-1\<close> and has written nothing to the standard output. The only other
  early stop is a tag file that is given and cannot be read: the run returns 0 without
  decoding. Otherwise the run is the registry build followed by \<open>Disassemble\<close>, and on a
  buffer that extends three bytes beyond \<open>Read\<close> it returns 0.
\<close>

theorem disasm_stops_before_decoding:
  "(\<not> fst (read_tagfile ext cx) \<longrightarrow>
      disasm ext Bitstream Read addr cx =
        Some (Result (0, cx\<lparr>collab := snd (read_tagfile ext cx)\<rparr>))) \<and>
   (fst (read_tagfile ext cx) \<and> (\<exists>i < length (avr_opcodes ext). avr_opcodes ext ! i \<noteq> i) \<longrightarrow>
      (\<exists>cx'. disasm ext Bitstream Read addr cx = Some (Result (- 1, cx')) \<and>
             stdout cx' = stdout cx)) \<and>
   (fst (read_tagfile ext cx) \<and> (\<forall>i < length (avr_opcodes ext). avr_opcodes ext ! i = i) \<longrightarrow>
      disasm ext Bitstream Read addr cx =
        and_then
          (Disassemble ext Bitstream Read addr
             (build_registry ext (cx\<lparr>collab := snd (read_tagfile ext cx)\<rparr>)))
          (\<lambda>cx4. Some (Result (0, cx4)))) \<and>
   (fst (read_tagfile ext cx) \<and> (\<forall>i < length (avr_opcodes ext). avr_opcodes ext ! i = i) \<and>
    qsort_contract (qsort ext) \<and> nat Read + 3 \<le> length Bitstream \<longrightarrow>
      (\<exists>cx'. disasm ext Bitstream Read addr cx = Some (Result (0, cx'))))"
proof -
  obtain ok x where tag: "read_tagfile ext cx = (ok, x)" by (cases "read_tagfile ext cx")
  have a: "disasm ext Bitstream Read addr cx = Some (Result (0, cx\<lparr>collab := x\<rparr>))" if "\<not> ok"
    using that tag by (simp add: disasm_def)
  have b: "\<exists>cx'. disasm ext Bitstream Read addr cx = Some (Result (- 1, cx')) \<and>
             stdout cx' = stdout cx"
    if "ok" "\<exists>i < length (avr_opcodes ext). avr_opcodes ext ! i \<noteq> i"
    using that tag by (simp add: disasm_def Let_def table_broken_iff)
  have c: "disasm ext Bitstream Read addr cx =
        and_then (Disassemble ext Bitstream Read addr (build_registry ext (cx\<lparr>collab := x\<rparr>)))
          (\<lambda>cx4. Some (Result (0, cx4)))"
    if "ok" "\<forall>i < length (avr_opcodes ext). avr_opcodes ext ! i = i"
  proof -
    from that(2) have "\<not> table_broken ext" by (auto simp: table_broken_iff)
    with that(1) tag show ?thesis by (simp add: disasm_def Let_def)
  qed
  have d: "\<exists>cx'. disasm ext Bitstream Read addr cx = Some (Result (0, cx'))"
    if "ok" "\<forall>i < length (avr_opcodes ext). avr_opcodes ext ! i = i"
      "qsort_contract (qsort ext)" "nat Read + 3 \<le> length Bitstream"
  proof -
    have "even (4 :: nat)" "2 \<le> (4 :: nat)" "nat Read + 4 \<le> length Bitstream + 1"
      using that(4) by simp_all
    from Disassemble_returns [OF this registry_fits_build_registry [OF that(3)],
        of ext addr "cx\<lparr>collab := x\<rparr>"]
    obtain cx4 where
      "Disassemble ext Bitstream Read addr (build_registry ext (cx\<lparr>collab := x\<rparr>)) = Some (Result cx4)"
      by blast
    with c [OF that(1,2)] show ?thesis by (simp add: and_then_def)
  qed
  from a b c d tag show ?thesis by simp
qed

theorem disasm_stops_before_decoding_witness:
  "(\<exists>cx'. disasm (plain_externals [0, 2]) [0, 0, 0, 0, 0] 2 0 plain_context = Some (Result (- 1, cx')) \<and>
          stdout cx' = []) \<and>
   (\<exists>cx'. disasm (plain_externals [0, 1]) [0, 0, 0, 0, 0] 2 0 plain_context = Some (Result (0, cx')))"
proof -
  have tag: "fst (read_tagfile (plain_externals t) plain_context)" for t
    by (simp add: read_tagfile_def plain_context_def plain_options_def)
  have bad: "\<exists>i < length (avr_opcodes (plain_externals [0, 2])). avr_opcodes (plain_externals [0, 2]) ! i \<noteq> i"
    by (intro exI [of _ 1]) (simp add: plain_externals_def)
  have good: "\<forall>i < length (avr_opcodes (plain_externals [0, 1])). avr_opcodes (plain_externals [0, 1]) ! i = i"
    by (simp add: plain_externals_def nth_Cons split: nat.splits)
  have contract: "qsort_contract (qsort (plain_externals [0, 1]))"
    by (simp add: plain_externals_def insertion_qsort_contract)
  have pad: "nat 2 + 3 \<le> length [0, 0, 0, 0, 0 :: byte]" by simp
  have out: "stdout plain_context = []" by (simp add: plain_context_def)
  from disasm_stops_before_decoding [of "plain_externals [0, 2]" plain_context "[0, 0, 0, 0, 0]" 2 0]
    tag bad out
  have "\<exists>cx'. disasm (plain_externals [0, 2]) [0, 0, 0, 0, 0] 2 0 plain_context = Some (Result (- 1, cx')) \<and>
          stdout cx' = []"
    by simp
  moreover
  from disasm_stops_before_decoding [of "plain_externals [0, 1]" plain_context "[0, 0, 0, 0, 0]" 2 0]
    tag good contract pad
  have "\<exists>cx'. disasm (plain_externals [0, 1]) [0, 0, 0, 0, 0] 2 0 plain_context = Some (Result (0, cx'))"
    by blast
  ultimately show ?thesis by blast
qed

end
